theory Spec2Isabelle
  imports Complex_Main "HOL-Library.Sublist"
begin

section \<open>Application state of the PDF-to-SVG cropper\<close>

text \<open>
  The fields of \<^verbatim>\<open>PdfToSvgCropper\<close> that the selection, zoom and export code reads or
  writes. Pixel coordinates are Python ints; scale factors are Python floats, modelled by
  exact real arithmetic (rounding of binary floating point is not modelled in this
  section). A document is opaque: only its page count is kept, and an open document is
  taken to have at least one page, so that \<^verbatim>\<open>not self.doc\<close> is the absence of a
  document. \<^verbatim>\<open>self.photo\<close> is kept as the pixel size of the rendered page image.
\<close>

record document =
  page_count :: nat

record app_state =
  doc :: "document option"
  page_index :: int
  scale :: real
  zoom_level :: real
  auto_fit :: bool
  base_scale :: "real option"
  photo :: "(int \<times> int) option"
  img_origin :: "(int \<times> int) option"
  sel_start :: "(int \<times> int) option"
  sel_end :: "(int \<times> int) option"
  preserve_text :: bool
  remove_kerning :: bool
  remove_background :: bool
  convert_grayscale :: bool

datatype py_error =
    RuntimeError string
  | ValueError
  | OverflowError
  | ZeroDivisionError
  | TemplateError  \<comment> \<open>\<^verbatim>\<open>re.error\<close> or \<^verbatim>\<open>IndexError\<close> from a replacement template\<close>
  | LibraryError  \<comment> \<open>an exception raised inside the rendering library\<close>

definition bind_err :: "py_error + 'a \<Rightarrow> ('a \<Rightarrow> py_error + 'b) \<Rightarrow> py_error + 'b" where
  "bind_err m f = (case m of Inl e \<Rightarrow> Inl e | Inr v \<Rightarrow> f v)"

subsection \<open>Rendering the current page\<close>

text \<open>
  What \<^verbatim>\<open>_render_current_page\<close> reads from its surroundings: the canvas size reported by
  Tk, the width of the current page in PDF points, and the pixel size of the pixmap the
  rendering library returns for a given scale.
\<close>

record render_env =
  canvas_width :: int
  canvas_height :: int
  page_rect_width :: real
  pixmap_size :: "real \<Rightarrow> int \<times> int"

definition clear_selection :: "app_state \<Rightarrow> app_state" where
  "clear_selection st = st\<lparr>sel_start := None, sel_end := None\<rparr>"

definition render_current_page :: "render_env \<Rightarrow> app_state \<Rightarrow> py_error + app_state" where
  "render_current_page env st =
     (if doc st = None then Inr st
      else
        let c_w = max (canvas_width env) 1;
            c_h = max (canvas_height env) 1
        in if c_w \<le> 1 \<or> c_h \<le> 1 then Inr st
           else if auto_fit st \<and> page_rect_width env = 0 then Inl ZeroDivisionError
           else
             let padding = 16;
                 target_w = max (c_w - padding * 2) 100;
                 bs = (if auto_fit st then real_of_int target_w / page_rect_width env
                       else (case base_scale st of Some b \<Rightarrow> b | None \<Rightarrow> 1));
                 sc = bs * zoom_level st;
                 (pw, ph) = pixmap_size env sc;
                 x_off = (c_w - pw) div 2;
                 y_off = max ((c_h - ph) div 2) 0
             in Inr (clear_selection
                      (st\<lparr>base_scale := Some bs, scale := sc, photo := Some (pw, ph),
                          img_origin := Some (x_off, y_off)\<rparr>)))"

subsection \<open>Zoom\<close>

text \<open>
  A Tk event as \<^verbatim>\<open>_on_zoom\<close> reads it: \<^verbatim>\<open>event.num\<close> is a button number or the
  placeholder \<^verbatim>\<open>'??'\<close> (here \<open>None\<close>), \<^verbatim>\<open>event.delta\<close> is an int.

  \<open>on_zoom\<close> returns the state after the handler and whether it called
  \<^verbatim>\<open>_render_current_page\<close>. An exception raised while rendering ends the handler; the
  fields assigned before the call keep their new values.
\<close>

record tk_event =
  num :: "int option"
  delta :: int

definition zoom_factor :: "tk_event \<Rightarrow> real option" where
  "zoom_factor ev =
     (if num ev = Some 4 \<or> delta ev > 0 then Some (11 / 10)
      else if num ev = Some 5 \<or> delta ev < 0 then Some (9 / 10)
      else None)"

definition on_zoom :: "render_env \<Rightarrow> tk_event \<Rightarrow> app_state \<Rightarrow> app_state \<times> bool" where
  "on_zoom env ev st =
     (if doc st = None then (st, False)
      else case zoom_factor ev of
        None \<Rightarrow> (st, False)
      | Some f \<Rightarrow>
          let new_zoom = zoom_level st * f;
              new_zoom = max (1 / 10) (min 10 new_zoom)
          in if new_zoom \<noteq> zoom_level st then
               let st' = st\<lparr>zoom_level := new_zoom, auto_fit := False\<rparr>
               in (case render_current_page env st' of
                     Inr st'' \<Rightarrow> (st'', True)
                   | Inl e \<Rightarrow> (st', True))
             else (st, False))"

section \<open>Binary floating point\<close>

text \<open>
  Python floats are IEEE 754 binary64 numbers, and every operation rounds its exact
  result to the nearest float, ties to even. A finite float is modelled by the real
  number it stands for, and \<open>fl\<close> rounds a real to the nearest float: with \<open>2\<^sup>e \<le> |x| < 2\<^sup>e\<^sup>+\<^sup>1\<close>
  the result is a multiple of \<open>2\<^sup>e\<^sup>-\<^sup>5\<^sup>2\<close> (of \<open>2\<^sup>-\<^sup>1\<^sup>0\<^sup>7\<^sup>4\<close> for subnormal numbers). A result
  of magnitude \<open>2\<^sup>1\<^sup>0\<^sup>2\<^sup>4\<close> or more stands for an overflow. In the luminance formula
  converting an int that overflows raises \<^verbatim>\<open>OverflowError\<close>, and an arithmetic overflow
  gives an infinity, which the final \<^verbatim>\<open>int()\<close> rejects with \<^verbatim>\<open>OverflowError\<close> as well, so
  there every overflow is reported as this error (\<open>checked\<close>).
\<close>

fun bit_len :: "nat \<Rightarrow> nat" where
  "bit_len n = (if n = 0 then 0 else Suc (bit_len (n div 2)))"

declare bit_len.simps [simp del]

definition pow2 :: "int \<Rightarrow> real" where
  "pow2 e = (if 0 \<le> e then 2 ^ nat e else 1 / 2 ^ nat (- e))"

definition ilog2 :: "real \<Rightarrow> int" where
  \<comment> \<open>for \<open>x > 0\<close>, the \<open>e\<close> with \<open>2\<^sup>e \<le> x < 2\<^sup>e\<^sup>+\<^sup>1\<close>\<close>
  "ilog2 x = (if 1 \<le> x then int (bit_len (nat \<lfloor>x\<rfloor>)) - 1
              else - int (bit_len (nat (\<lceil>1 / x\<rceil> - 1))))"

definition round_half_even :: "real \<Rightarrow> int" where
  "round_half_even x =
     (let f = \<lfloor>x\<rfloor>; d = x - of_int f
      in if d < 1 / 2 then f
         else if 1 / 2 < d then f + 1
         else if even f then f else f + 1)"

definition fl :: "real \<Rightarrow> real" where
  "fl x = (if x = 0 then 0
           else let q = max (ilog2 \<bar>x\<bar> - 52) (- 1074)
                in of_int (round_half_even (x / pow2 q)) * pow2 q)"

definition checked :: "real \<Rightarrow> py_error + real" where
  "checked x = (if 2 ^ 1024 \<le> \<bar>x\<bar> then Inl OverflowError else Inr x)"

definition float_of_int :: "int \<Rightarrow> py_error + real" where
  "float_of_int i = checked (fl (of_int i))"

definition fmul :: "real \<Rightarrow> real \<Rightarrow> py_error + real" where
  "fmul a b = checked (fl (a * b))"

definition fadd :: "real \<Rightarrow> real \<Rightarrow> py_error + real" where
  "fadd a b = checked (fl (a + b))"

definition int_of_float :: "real \<Rightarrow> int" where
  "int_of_float x = (if 0 \<le> x then \<lfloor>x\<rfloor> else \<lceil>x\<rceil>)"

section \<open>Selection and export geometry\<close>

subsection \<open>Selection rectangle\<close>

text \<open>
  \<^verbatim>\<open>fitz.Rect\<close> belongs to the rendering library. Its documented properties are used:
  \<^verbatim>\<open>width\<close> is \<^verbatim>\<open>max(0, x1 - x0)\<close>, \<^verbatim>\<open>height\<close> is \<^verbatim>\<open>max(0, y1 - y0)\<close>, and a
  rectangle is false in a boolean test exactly when all four coordinates are zero. The
  coordinates are floats, so the differences are rounded.
\<close>

record rect =
  x0 :: real
  y0 :: real
  x1 :: real
  y1 :: real

definition Rect :: "real \<Rightarrow> real \<Rightarrow> real \<Rightarrow> real \<Rightarrow> rect" where
  "Rect a b c d = \<lparr>x0 = a, y0 = b, x1 = c, y1 = d\<rparr>"

definition rect_width :: "rect \<Rightarrow> real" where
  "rect_width r = max 0 (fl (x1 r - x0 r))"

definition rect_height :: "rect \<Rightarrow> real" where
  "rect_height r = max 0 (fl (y1 r - y0 r))"

definition rect_truthy :: "rect \<Rightarrow> bool" where
  "rect_truthy r = (\<not> (x0 r = 0 \<and> y0 r = 0 \<and> x1 r = 0 \<and> y1 r = 0))"

definition get_selection_rect_image_coords ::
  "app_state \<Rightarrow> (int \<times> int \<times> int \<times> int) option" where
  "get_selection_rect_image_coords st =
     (case (sel_start st, sel_end st, photo st) of
        (Some (sx0, sy0), Some (sx1, sy1), Some (w, h)) \<Rightarrow>
          let cx0 = min (max 0 sx0) w;
              cy0 = min (max 0 sy0) h;
              cx1 = min (max 0 sx1) w;
              cy1 = min (max 0 sy1) h;
              rx0 = min cx0 cx1; ry0 = min cy0 cy1;
              rx1 = max cx0 cx1; ry1 = max cy0 cy1
          in if rx1 - rx0 < 1 \<or> ry1 - ry0 < 1 then None
             else Some (rx0, ry0, rx1, ry1)
      | _ \<Rightarrow> None)"

text \<open>
  \<^verbatim>\<open>_selection_pdf_rect\<close> works on floats: the literal \<^verbatim>\<open>1e-6\<close> is the float nearest to
  \<open>10\<^sup>-\<^sup>6\<close>, the quotient \<^verbatim>\<open>1.0 / max(self.scale, 1e-6)\<close> is rounded, and each product of a
  pixel coordinate with it converts the int to a float and rounds the product. The
  pixel coordinates lie inside the image, whose sides are machine integers of the
  toolkit, so that the conversion cannot overflow.
\<close>

definition selection_pdf_rect :: "app_state \<Rightarrow> rect option" where
  "selection_pdf_rect st =
     (case get_selection_rect_image_coords st of
        None \<Rightarrow> None
      | Some (px0, py0, px1, py1) \<Rightarrow>
          if doc st = None then None
          else
            let px_to_pt = fl (1 / max (scale st) (fl (1 / 1000000)));
                left = fl (fl (real_of_int px0) * px_to_pt);
                top = fl (fl (real_of_int py0) * px_to_pt);
                right = fl (fl (real_of_int px1) * px_to_pt);
                bottom = fl (fl (real_of_int py1) * px_to_pt)
            in Some (Rect left top right bottom))"

section \<open>Sample inputs\<close>

text \<open>A state with an open one-page document, and a canvas showing a US-letter page.\<close>

definition st0 :: app_state where
  "st0 = \<lparr>doc = Some \<lparr>page_count = 1\<rparr>, page_index = 0, scale = 1, zoom_level = 1,
          auto_fit = True, base_scale = None, photo = None, img_origin = None,
          sel_start = None, sel_end = None, preserve_text = True, remove_kerning = False,
          remove_background = False, convert_grayscale = False\<rparr>"

definition env0 :: render_env where
  "env0 = \<lparr>canvas_width = 800, canvas_height = 900, page_rect_width = 612,
           pixmap_size = (\<lambda>s. (\<lfloor>612 * s\<rfloor>, \<lfloor>792 * s\<rfloor>))\<rparr>"

definition ev_scroll_up :: tk_event where
  "ev_scroll_up = \<lparr>num = Some 4, delta = 0\<rparr>"

text \<open>
  A state with a rendered US-letter page at scale 2 and a finished drag from pixel
  \<open>(10, 20)\<close> to pixel \<open>(110, 220)\<close>; the same state with the scale \<^verbatim>\<open>1e-7\<close>, below the
  floor \<^verbatim>\<open>1e-6\<close> that \<^verbatim>\<open>_selection_pdf_rect\<close> puts under the divisor; and the same state
  with the scale \<^verbatim>\<open>1.3803921568627453\<close>. Both scales are written as the fractions that
  these floats stand for.
\<close>

definition st_sel :: app_state where
  "st_sel = st0\<lparr>scale := 2, photo := Some (1224, 1584), img_origin := Some (0, 0),
               sel_start := Some (10, 20), sel_end := Some (110, 220)\<rparr>"

definition st_tiny_scale :: app_state where
  "st_tiny_scale = st_sel\<lparr>scale := 944473296573929 / 9444732965739290427392\<rparr>"

definition st_zoomed :: app_state where
  "st_zoomed = st_sel\<lparr>scale := 6216733603272215 / 4503599627370496\<rparr>"

section \<open>Python string operations\<close>

text \<open>
  SVG text is a Python \<^verbatim>\<open>str\<close>; it is modelled as a \<open>string\<close>, one \<open>char\<close> per code
  point, which restricts the model to text of code points below 256. The whitespace
  characters are those of \<^verbatim>\<open>str.isspace\<close> in that range; they are also what \<^verbatim>\<open>\s\<close>
  matches in a \<^verbatim>\<open>str\<close> pattern.
\<close>

definition is_space :: "char \<Rightarrow> bool" where
  "is_space c = (let n = (of_char c :: nat)
                 in (9 \<le> n \<and> n \<le> 13) \<or> (28 \<le> n \<and> n \<le> 32) \<or> n = 133 \<or> n = 160)"

definition is_digit :: "char \<Rightarrow> bool" where
  "is_digit c = (let n = (of_char c :: nat) in 48 \<le> n \<and> n \<le> 57)"

definition is_hex_digit :: "char \<Rightarrow> bool" where
  "is_hex_digit c = (let n = (of_char c :: nat)
                     in (48 \<le> n \<and> n \<le> 57) \<or> (97 \<le> n \<and> n \<le> 102) \<or> (65 \<le> n \<and> n \<le> 70))"

text \<open>The operator \<^verbatim>\<open>sub in s\<close> on strings.\<close>

fun contains :: "string \<Rightarrow> string \<Rightarrow> bool" where
  "contains sub [] = (sub = [])"
| "contains sub (c # cs) = (prefix sub (c # cs) \<or> contains sub cs)"

text \<open>\<^verbatim>\<open>s.split(sep)\<close> for a one-character separator, and \<^verbatim>\<open>sep.join(parts)\<close>.\<close>

fun split_on :: "char \<Rightarrow> string \<Rightarrow> string list" where
  "split_on sep [] = [[]]"
| "split_on sep (c # cs) =
     (if c = sep then [] # split_on sep cs
      else (case split_on sep cs of
              [] \<Rightarrow> [[c]]
            | l # ls \<Rightarrow> (c # l) # ls))"

fun join :: "string \<Rightarrow> string list \<Rightarrow> string" where
  "join sep [] = []"
| "join sep [l] = l"
| "join sep (l # ls) = l @ sep @ join sep ls"

text \<open>\<^verbatim>\<open>s.split()\<close>: the maximal runs of non-whitespace characters.\<close>

fun split_ws :: "string \<Rightarrow> string list" where
  "split_ws [] = []"
| "split_ws (c # cs) =
     (if is_space c then split_ws cs
      else (case cs of
              [] \<Rightarrow> [[c]]
            | d # _ \<Rightarrow>
                if is_space d then [c] # split_ws cs
                else (case split_ws cs of
                        [] \<Rightarrow> [[c]]
                      | l # ls \<Rightarrow> (c # l) # ls)))"

definition strip :: "string \<Rightarrow> string" where
  "strip s = rev (dropWhile is_space (rev (dropWhile is_space s)))"

text \<open>
  \<^verbatim>\<open>int(s)\<close> on a string: surrounding whitespace is ignored, then an optional sign and
  decimal digits, where single underscores may separate digits. Anything else raises
  \<^verbatim>\<open>ValueError\<close> (\<open>None\<close>). The interpreter's configurable limit on the number of digits
  is not modelled.
\<close>

fun digits_value :: "nat \<Rightarrow> string \<Rightarrow> nat option" where
  "digits_value acc [] = Some acc"
| "digits_value acc [c] =
     (if is_digit c then Some (acc * 10 + (of_char c - 48)) else None)"
| "digits_value acc (c # d # cs) =
     (if is_digit c then
        (if d = CHR ''_'' then
           (case cs of [] \<Rightarrow> None
            | e # _ \<Rightarrow> if is_digit e then digits_value (acc * 10 + (of_char c - 48)) cs
                       else None)
         else digits_value (acc * 10 + (of_char c - 48)) (d # cs))
      else None)"

definition py_int :: "string \<Rightarrow> int option" where
  "py_int s =
     (case strip s of
        [] \<Rightarrow> None
      | c # cs \<Rightarrow>
          if c = CHR ''-'' then
            (if cs = [] then None else map_option (\<lambda>n. - int n) (digits_value 0 cs))
          else if c = CHR ''+'' then
            (if cs = [] then None else map_option int (digits_value 0 cs))
          else map_option int (digits_value 0 (c # cs)))"

text \<open>\<^verbatim>\<open>str(n)\<close> and the format \<^verbatim>\<open>f'{n:02x}'\<close> of an int.\<close>

definition digit_char :: "nat \<Rightarrow> char" where
  "digit_char d = ''0123456789abcdef'' ! d"

fun nat_digits :: "nat \<Rightarrow> nat \<Rightarrow> string" where
  "nat_digits b n =
     (if b < 2 \<or> n < b then [digit_char n] else nat_digits b (n div b) @ [digit_char (n mod b)])"

definition str_of_int :: "int \<Rightarrow> string" where
  "str_of_int i = (if i < 0 then CHR ''-'' # nat_digits 10 (nat (- i)) else nat_digits 10 (nat i))"

definition zero_pad :: "nat \<Rightarrow> string \<Rightarrow> string" where
  "zero_pad w s = replicate (w - length s) CHR ''0'' @ s"

definition format_02x :: "int \<Rightarrow> string" where
  "format_02x i =
     (if i < 0 then CHR ''-'' # zero_pad 1 (nat_digits 16 (nat (- i)))
      else zero_pad 2 (nat_digits 16 (nat i)))"

section \<open>Regular expressions\<close>

text \<open>
  The patterns of the three rewriting passes are sequences of character classes, each
  with a repetition range; a literal character is a class of one character taken once.
  No pattern has alternation, a lazy quantifier or a nested group, and each capturing
  group encloses one repeated class. An item is a class, the least and greatest number
  of repetitions (\<open>None\<close> for unbounded), and whether it is captured.
\<close>

datatype cls =
    Ch char            \<comment> \<open>the character itself\<close>
  | NotCh char         \<comment> \<open>\<^verbatim>\<open>[^c]\<close>\<close>
  | OneOf string       \<comment> \<open>\<^verbatim>\<open>[abc]\<close>\<close>
  | Space              \<comment> \<open>\<^verbatim>\<open>\s\<close>\<close>
  | Digit              \<comment> \<open>\<^verbatim>\<open>\d\<close>\<close>
  | HexDigit           \<comment> \<open>\<^verbatim>\<open>[0-9a-fA-F]\<close>\<close>

fun cls_matches :: "cls \<Rightarrow> char \<Rightarrow> bool" where
  "cls_matches (Ch c) x = (x = c)"
| "cls_matches (NotCh c) x = (x \<noteq> c)"
| "cls_matches (OneOf cs) x = (x \<in> set cs)"
| "cls_matches Space x = is_space x"
| "cls_matches Digit x = is_digit x"
| "cls_matches HexDigit x = is_hex_digit x"

datatype item = Item (item_cls: cls) (item_min: nat) (item_max: "nat option") (captured: bool)

definition lit :: "string \<Rightarrow> item list" where
  "lit s = map (\<lambda>c. Item (Ch c) 1 (Some 1) False) s"

definition once :: "cls \<Rightarrow> item" where
  "once c = Item c 1 (Some 1) False"

definition many0 :: "cls \<Rightarrow> item" where
  "many0 c = Item c 0 None False"

definition many1 :: "cls \<Rightarrow> item" where
  "many1 c = Item c 1 None False"

definition at_least :: "nat \<Rightarrow> cls \<Rightarrow> item" where
  "at_least n c = Item c n None False"

definition exactly :: "nat \<Rightarrow> cls \<Rightarrow> item" where
  "exactly n c = Item c n (Some n) False"

definition capture :: "item \<Rightarrow> item" where
  "capture it = Item (item_cls it) (item_min it) (item_max it) True"

text \<open>
  Matching at a fixed position is the backtracking search of Python's \<^verbatim>\<open>re\<close>: every
  quantifier is greedy, so an item first takes as many characters as it can and gives
  them back one at a time while the rest of the pattern fails. \<open>try_down f lo k\<close> tries
  the counts \<open>lo + k\<close> down to \<open>lo\<close> in this order. The result of a match is the list
  of the substrings taken by the items.
\<close>

primrec try_down :: "(nat \<Rightarrow> 'a option) \<Rightarrow> nat \<Rightarrow> nat \<Rightarrow> 'a option" where
  "try_down f lo 0 = f lo"
| "try_down f lo (Suc k) =
     (case f (lo + Suc k) of Some r \<Rightarrow> Some r | None \<Rightarrow> try_down f lo k)"

definition max_count :: "item \<Rightarrow> string \<Rightarrow> nat" where
  "max_count it s =
     (let n = length (takeWhile (cls_matches (item_cls it)) s)
      in case item_max it of None \<Rightarrow> n | Some h \<Rightarrow> min h n)"

primrec match_here :: "item list \<Rightarrow> string \<Rightarrow> string list option" where
  "match_here [] s = Some []"
| "match_here (it # rest) s =
     (let hi = max_count it s
      in if hi < item_min it then None
         else try_down
                (\<lambda>n. map_option (\<lambda>segs. take n s # segs) (match_here rest (drop n s)))
                (item_min it) (hi - item_min it))"

text \<open>
  A match object: the text before the match, the substrings taken by the items, and the
  text after the match. \<^verbatim>\<open>re.search\<close> returns the match at the leftmost position that
  has one.
\<close>

type_synonym match = "string \<times> string list \<times> string"

definition after_match :: "string list \<Rightarrow> string \<Rightarrow> string" where
  "after_match segs s = drop (length (concat segs)) s"

fun re_search :: "item list \<Rightarrow> string \<Rightarrow> match option" where
  "re_search p [] =
     (case match_here p [] of Some segs \<Rightarrow> Some ([], segs, []) | None \<Rightarrow> None)"
| "re_search p (c # cs) =
     (case match_here p (c # cs) of
        Some segs \<Rightarrow> Some ([], segs, after_match segs (c # cs))
      | None \<Rightarrow>
          (case re_search p cs of
             Some (pre, segs, post) \<Rightarrow> Some (c # pre, segs, post)
           | None \<Rightarrow> None))"

definition group0 :: "string list \<Rightarrow> string" where
  "group0 segs = concat segs"

definition group1 :: "item list \<Rightarrow> string list \<Rightarrow> string" where
  "group1 p segs = concat (map snd (filter (\<lambda>(it, seg). captured it) (zip p segs)))"

text \<open>
  \<^verbatim>\<open>re.sub\<close> with a function as replacement scans the text from left to right. At a
  position inside the previous match (\<open>skip > 0\<close>) nothing is tried; otherwise a match at
  the position is replaced by the value of the function and the scan goes on after it,
  and without a match the character is copied. An exception raised by the function ends
  the substitution.
\<close>

fun re_sub_scan ::
  "item list \<Rightarrow> (string list \<Rightarrow> py_error + string) \<Rightarrow> nat \<Rightarrow> string \<Rightarrow> py_error + string" where
  "re_sub_scan p f skip [] =
     (if skip = 0 then (case match_here p [] of None \<Rightarrow> Inr [] | Some segs \<Rightarrow> f segs)
      else Inr [])"
| "re_sub_scan p f (Suc k) (c # cs) = re_sub_scan p f k cs"
| "re_sub_scan p f 0 (c # cs) =
     (case match_here p (c # cs) of
        None \<Rightarrow> bind_err (re_sub_scan p f 0 cs) (\<lambda>r. Inr (c # r))
      | Some segs \<Rightarrow>
          bind_err (f segs) (\<lambda>new.
            if concat segs = [] then
              bind_err (re_sub_scan p f 0 cs) (\<lambda>r. Inr (new @ c # r))
            else
              bind_err (re_sub_scan p f (length (concat segs) - 1) cs) (\<lambda>r. Inr (new @ r))))"

definition re_sub ::
  "item list \<Rightarrow> (string list \<Rightarrow> py_error + string) \<Rightarrow> string \<Rightarrow> py_error + string" where
  "re_sub p f s = re_sub_scan p f 0 s"

text \<open>
  \<^verbatim>\<open>re.sub\<close> with a string as replacement parses the string as a template before it
  looks for a match (\<^verbatim>\<open>parse_template\<close> of the library, for a pattern without capturing
  groups, the only kind that the program uses with a string replacement). A backslash
  starts an escape: \<^verbatim>\<open>\g<0>\<close> stands for the whole match, \<^verbatim>\<open>\0\<close> with up to two more
  octal digits and three octal digits up to \<^verbatim>\<open>\377\<close> stand for the character of that
  code, \<^verbatim>\<open>\a \b \f \n \r \t \v \\\<close> for their control characters, a backslash before
  a character that is neither a letter nor a digit stays with that character, and
  everything else (another letter, a reference to a group other than 0, a backslash at
  the end) is rejected with \<^verbatim>\<open>re.error\<close> or \<^verbatim>\<open>IndexError\<close>.
\<close>

datatype tpl_part = TLit char | TGroup0

definition is_oct_digit :: "char \<Rightarrow> bool" where
  "is_oct_digit c = (let n = (of_char c :: nat) in 48 \<le> n \<and> n \<le> 55)"

definition is_ascii_letter :: "char \<Rightarrow> bool" where
  "is_ascii_letter c = (let n = (of_char c :: nat) in (65 \<le> n \<and> n \<le> 90) \<or> (97 \<le> n \<and> n \<le> 122))"

definition oct_value :: "char \<Rightarrow> nat" where
  "oct_value c = of_char c - 48"

definition escape_char :: "char \<Rightarrow> char option" where
  "escape_char c =
     (if c = CHR ''a'' then Some (CHR 0x07)
      else if c = CHR ''b'' then Some (CHR 0x08)
      else if c = CHR ''f'' then Some (CHR 0x0C)
      else if c = CHR ''n'' then Some (CHR 0x0A)
      else if c = CHR ''r'' then Some (CHR 0x0D)
      else if c = CHR ''t'' then Some (CHR 0x09)
      else if c = CHR ''v'' then Some (CHR 0x0B)
      else if c = CHR 0x5C then Some (CHR 0x5C)
      else None)"

function parse_template :: "string \<Rightarrow> py_error + tpl_part list" where
  "parse_template [] = Inr []"
| "parse_template (c # cs) =
     (if c \<noteq> CHR 0x5C then bind_err (parse_template cs) (\<lambda>ps. Inr (TLit c # ps))
      else case cs of
        [] \<Rightarrow> Inl TemplateError
      | e # rest \<Rightarrow>
          if e = CHR ''g'' then
            (case rest of
               [] \<Rightarrow> Inl TemplateError
             | lt # r \<Rightarrow>
                 if lt \<noteq> CHR ''<'' then Inl TemplateError
                 else
                   let name = takeWhile (\<lambda>x. x \<noteq> CHR ''>'') r;
                       after = dropWhile (\<lambda>x. x \<noteq> CHR ''>'') r
                   in if after = [] \<or> py_int name \<noteq> Some 0 then Inl TemplateError
                      else bind_err (parse_template (tl after)) (\<lambda>ps. Inr (TGroup0 # ps)))
          else if e = CHR ''0'' then
            (case rest of
               [] \<Rightarrow> Inr [TLit (CHR 0x00)]
             | d1 # r1 \<Rightarrow>
                 if is_oct_digit d1 then
                   (case r1 of
                      [] \<Rightarrow> Inr [TLit (char_of (oct_value d1))]
                    | d2 # r2 \<Rightarrow>
                        if is_oct_digit d2 then
                          bind_err (parse_template r2)
                            (\<lambda>ps. Inr (TLit (char_of (oct_value d1 * 8 + oct_value d2)) # ps))
                        else
                          bind_err (parse_template (d2 # r2))
                            (\<lambda>ps. Inr (TLit (char_of (oct_value d1)) # ps)))
                 else bind_err (parse_template (d1 # r1)) (\<lambda>ps. Inr (TLit (CHR 0x00) # ps)))
          else if is_digit e then
            (case rest of
               d1 # d2 # r2 \<Rightarrow>
                 if is_oct_digit e \<and> is_oct_digit d1 \<and> is_oct_digit d2
                    \<and> oct_value e * 64 + oct_value d1 * 8 + oct_value d2 \<le> 255
                 then bind_err (parse_template r2)
                        (\<lambda>ps. Inr (TLit (char_of (oct_value e * 64 + oct_value d1 * 8
                                                   + oct_value d2)) # ps))
                 else Inl TemplateError
             | _ \<Rightarrow> Inl TemplateError)
          else
            (case escape_char e of
               Some x \<Rightarrow> bind_err (parse_template rest) (\<lambda>ps. Inr (TLit x # ps))
             | None \<Rightarrow>
                 if is_ascii_letter e then Inl TemplateError
                 else bind_err (parse_template rest) (\<lambda>ps. Inr (TLit c # TLit e # ps))))"
  by pat_completeness auto
termination
proof (relation "measure length", goal_cases)
  case (3 c cs e rest lt r name after)
  have "length (tl (dropWhile (\<lambda>x. x \<noteq> CHR ''>'') r)) \<le> length r"
    using length_dropWhile_le [of "\<lambda>x. x \<noteq> CHR ''>''" r] by simp
  with 3 show ?case by simp
qed auto

fun expand_template :: "tpl_part list \<Rightarrow> string \<Rightarrow> string" where
  "expand_template [] m = []"
| "expand_template (TLit c # ps) m = c # expand_template ps m"
| "expand_template (TGroup0 # ps) m = m @ expand_template ps m"

definition re_sub_template :: "item list \<Rightarrow> string \<Rightarrow> string \<Rightarrow> py_error + string" where
  "re_sub_template p repl s =
     bind_err (parse_template repl)
       (\<lambda>parts. re_sub p (\<lambda>segs. Inr (expand_template parts (group0 segs))) s)"

section \<open>Kerning merge\<close>

text \<open>
  The patterns of \<^verbatim>\<open>_remove_svg_kerning\<close>, in the order of the source:
  \<^verbatim>\<open>x="([^"]+)"\<close>, \<^verbatim>\<open>y="([^"]+)"\<close>, \<^verbatim>\<open>>([^<]+)<\<close>, \<^verbatim>\<open>x="[^"]+"\<close>, \<^verbatim>\<open>y="[^"]+"\<close> and
  \<^verbatim>\<open><text[^>]*x="[^"]*\s[^"]*"[^>]*y="[^"]*"[^>]*>[^<]+</text>\<close>.
\<close>

definition pat_x_group :: "item list" where
  \<open>pat_x_group = lit ''x="'' @ [capture (many1 (NotCh (CHR 0x22)))] @ lit ''"''\<close>

definition pat_y_group :: "item list" where
  \<open>pat_y_group = lit ''y="'' @ [capture (many1 (NotCh (CHR 0x22)))] @ lit ''"''\<close>

definition pat_text_content :: "item list" where
  \<open>pat_text_content = lit ''>'' @ [capture (many1 (NotCh CHR ''<''))] @ lit ''<''\<close>

definition pat_x_attr :: "item list" where
  \<open>pat_x_attr = lit ''x="'' @ [many1 (NotCh (CHR 0x22))] @ lit ''"''\<close>

definition pat_y_attr :: "item list" where
  \<open>pat_y_attr = lit ''y="'' @ [many1 (NotCh (CHR 0x22))] @ lit ''"''\<close>

definition pat_kerned_text :: "item list" where
  \<open>pat_kerned_text =
     lit ''<text'' @ [many0 (NotCh CHR ''>'')]
     @ lit ''x="'' @ [many0 (NotCh (CHR 0x22)), once Space, many0 (NotCh (CHR 0x22))] @ lit ''"''
     @ [many0 (NotCh CHR ''>'')]
     @ lit ''y="'' @ [many0 (NotCh (CHR 0x22))] @ lit ''"''
     @ [many0 (NotCh CHR ''>'')] @ lit ''>''
     @ [many1 (NotCh CHR ''<'')] @ lit ''</text>''\<close>

definition merge_text_spans :: "string list \<Rightarrow> py_error + string" where
  \<open>merge_text_spans segs =
     (let full_tag = group0 segs;
          x_match = re_search pat_x_group full_tag;
          y_match = re_search pat_y_group full_tag;
          text_match = re_search pat_text_content full_tag
      in case (x_match, y_match, text_match) of
           (Some (_, xsegs, _), Some (_, ysegs, _), Some (_, tsegs, _)) \<Rightarrow>
             let x_vals = split_ws (group1 pat_x_group xsegs);
                 y_vals = split_ws (group1 pat_y_group ysegs)
             in (case (x_vals, y_vals) of
                   (first_x # _, first_y # _) \<Rightarrow>
                     bind_err (re_sub_template pat_x_attr (''x="'' @ first_x @ ''"'') full_tag)
                       (\<lambda>new_tag. re_sub_template pat_y_attr (''y="'' @ first_y @ ''"'') new_tag)
                 | _ \<Rightarrow> Inr full_tag)
         | _ \<Rightarrow> Inr full_tag)\<close>

definition remove_svg_kerning :: "string \<Rightarrow> py_error + string" where
  "remove_svg_kerning svg = re_sub pat_kerned_text merge_text_spans svg"

section \<open>Background removal\<close>

text \<open>The pattern \<^verbatim>\<open>[HV]\s*\d{3,}\<close>.\<close>

definition pat_hv :: "item list" where
  "pat_hv = [once (OneOf ''HV''), many0 Space, at_least 3 Digit]"

definition is_white :: "string \<Rightarrow> bool" where
  \<open>is_white line =
     (contains ''fill="#ffffff"'' line \<or> contains ''fill="#fff"'' line
      \<or> contains ''fill="rgb(255,255,255)"'' line \<or> contains ''fill="white"'' line)\<close>

text \<open>The loop over the lines; a \<^verbatim>\<open>continue\<close> drops the line.\<close>

fun filter_lines :: "string list \<Rightarrow> string list" where
  "filter_lines [] = []"
| \<open>filter_lines (line # lines) =
     (if is_white line then
        (if contains ''<rect'' line \<and> (contains ''x="0"'' line \<or> contains ''y="0"'' line)
         then filter_lines lines
         else if contains ''<path'' line then
           (if re_search pat_hv line \<noteq> None then filter_lines lines
            else line # filter_lines lines)
         else line # filter_lines lines)
      else line # filter_lines lines)\<close>

definition remove_svg_background :: "string \<Rightarrow> string" where
  "remove_svg_background svg = join [CHR 0x0A] (filter_lines (split_on (CHR 0x0A) svg))"

section \<open>Grayscale conversion\<close>

subsection \<open>Luminance\<close>

text \<open>\<^verbatim>\<open>int(0.299 * r + 0.587 * g + 0.114 * b)\<close> for ints \<open>r\<close>, \<open>g\<close>, \<open>b\<close>.\<close>

definition gray_of :: "int \<Rightarrow> int \<Rightarrow> int \<Rightarrow> py_error + int" where
  "gray_of r g b =
     bind_err (float_of_int r) (\<lambda>rf.
     bind_err (fmul (fl (299 / 1000)) rf) (\<lambda>t1.
     bind_err (float_of_int g) (\<lambda>gf.
     bind_err (fmul (fl (587 / 1000)) gf) (\<lambda>t2.
     bind_err (fadd t1 t2) (\<lambda>s12.
     bind_err (float_of_int b) (\<lambda>bf.
     bind_err (fmul (fl (114 / 1000)) bf) (\<lambda>t3.
     bind_err (fadd s12 t3) (\<lambda>s. Inr (int_of_float s)))))))))"

subsection \<open>The pass\<close>

text \<open>The patterns \<^verbatim>\<open>rgb\(([^)]+)\)\<close> and \<^verbatim>\<open>#([0-9a-fA-F]{6})\<close>.\<close>

definition pat_rgb :: "item list" where
  "pat_rgb = lit ''rgb('' @ [capture (many1 (NotCh CHR '')''))] @ lit '')''"

definition pat_hex :: "item list" where
  "pat_hex = lit ''#'' @ [capture (exactly 6 HexDigit)]"

definition int_or_raise :: "string \<Rightarrow> py_error + int" where
  "int_or_raise s = (case py_int s of None \<Rightarrow> Inl ValueError | Some i \<Rightarrow> Inr i)"

definition rgb_to_gray :: "string list \<Rightarrow> py_error + string" where
  "rgb_to_gray segs =
     (let rgb_str = group1 pat_rgb segs;
          values = split_on CHR '','' rgb_str
      in case values of
           [v1, v2, v3] \<Rightarrow>
             bind_err (int_or_raise (strip v1)) (\<lambda>r.
             bind_err (int_or_raise (strip v2)) (\<lambda>g.
             bind_err (int_or_raise (strip v3)) (\<lambda>b.
             bind_err (gray_of r g b) (\<lambda>gray.
               Inr (''rgb('' @ str_of_int gray @ '','' @ str_of_int gray @ '',''
                    @ str_of_int gray @ '')'')))))
         | _ \<Rightarrow> Inr (group0 segs))"

text \<open>\<^verbatim>\<open>int(s, 16)\<close> on a string of hexadecimal digits, as the pattern provides them.\<close>

definition hex_digit_value :: "char \<Rightarrow> nat" where
  "hex_digit_value c =
     (let n = (of_char c :: nat)
      in if n \<le> 57 then n - 48 else if 97 \<le> n then n - 87 else n - 55)"

definition int16 :: "string \<Rightarrow> py_error + int" where
  "int16 s =
     (if s \<noteq> [] \<and> list_all is_hex_digit s
      then Inr (int (foldl (\<lambda>acc c. acc * 16 + hex_digit_value c) 0 s))
      else Inl ValueError)"

definition hex_to_gray :: "string list \<Rightarrow> py_error + string" where
  "hex_to_gray segs =
     (let hex_color = group1 pat_hex segs
      in if length hex_color = 6 then
           bind_err (int16 (take 2 hex_color)) (\<lambda>r.
           bind_err (int16 (take 2 (drop 2 hex_color))) (\<lambda>g.
           bind_err (int16 (take 2 (drop 4 hex_color))) (\<lambda>b.
           bind_err (gray_of r g b) (\<lambda>gray.
             let gray_hex = format_02x gray
             in Inr (''#'' @ gray_hex @ gray_hex @ gray_hex)))))
         else Inr (group0 segs))"

definition convert_svg_grayscale :: "string \<Rightarrow> py_error + string" where
  "convert_svg_grayscale svg =
     bind_err (re_sub pat_rgb rgb_to_gray svg) (\<lambda>svg1. re_sub pat_hex hex_to_gray svg1)"

section \<open>SVG export\<close>

text \<open>
  The rendering library is an opaque collaborator. \<^verbatim>\<open>_svg_from_selection\<close> asks it for a
  new one-page document of a given size, shows the clipped region of the source page in
  a target rectangle of that page and requests the page as SVG; \<open>render_request\<close> holds
  the arguments of these calls, and the library is a function from the source document
  and the request to the SVG text or to the exception that one of the calls raised.
\<close>

record render_request =
  new_page_width :: real
  new_page_height :: real
  target :: rect
  src_pno :: int
  clip :: rect
  text_as_path :: bool

type_synonym renderer = "document \<Rightarrow> render_request \<Rightarrow> py_error + string"

text \<open>The rewriting passes of \<^verbatim>\<open>_svg_from_selection\<close>, applied to the rendered SVG.\<close>

definition apply_passes :: "app_state \<Rightarrow> string \<Rightarrow> py_error + string" where
  "apply_passes st svg =
     bind_err (if preserve_text st \<and> remove_kerning st then remove_svg_kerning svg
               else Inr svg) (\<lambda>svg.
       let svg = (if remove_background st then remove_svg_background svg else svg)
       in if convert_grayscale st then convert_svg_grayscale svg else Inr svg)"

definition svg_from_selection :: "renderer \<Rightarrow> app_state \<Rightarrow> py_error + string" where
  "svg_from_selection render st =
     (case doc st of
        None \<Rightarrow> Inl (RuntimeError ''No PDF open'')
      | Some d \<Rightarrow>
          (case selection_pdf_rect st of
             None \<Rightarrow> Inl (RuntimeError ''No valid selection to export'')
           | Some clip_rect \<Rightarrow>
               if \<not> rect_truthy clip_rect
               then Inl (RuntimeError ''No valid selection to export'')
               else if rect_width clip_rect \<le> 0 \<or> rect_height clip_rect \<le> 0
               then Inl (RuntimeError ''Selection has zero size'')
               else
                 let request =
                       \<lparr>new_page_width = rect_width clip_rect,
                        new_page_height = rect_height clip_rect,
                        target = Rect 0 0 (rect_width clip_rect) (rect_height clip_rect),
                        src_pno = page_index st,
                        clip = clip_rect,
                        text_as_path = (\<not> preserve_text st)\<rparr>
                 in bind_err (render d request) (\<lambda>svg. apply_passes st svg)))"

text \<open>
  What the two commands show or produce. The file dialog's answer and the success of
  writing the file or setting the clipboard are inputs. A warning carries the exception
  whose text is shown.
\<close>

datatype ui_outcome =
    ShowWarning string py_error
  | Cancelled
  | Saved string string
  | Copied string
  | ShowError string

definition export_selection_as_svg ::
  "renderer \<Rightarrow> app_state \<Rightarrow> string \<Rightarrow> bool \<Rightarrow> ui_outcome" where
  "export_selection_as_svg render st path write_ok =
     (case svg_from_selection render st of
        Inl e \<Rightarrow> ShowWarning ''Export SVG'' e
      | Inr svg \<Rightarrow>
          if path = [] then Cancelled
          else if write_ok then Saved path svg
          else ShowError ''Export SVG'')"

definition copy_svg_to_clipboard :: "renderer \<Rightarrow> app_state \<Rightarrow> bool \<Rightarrow> ui_outcome" where
  "copy_svg_to_clipboard render st clipboard_ok =
     (case svg_from_selection render st of
        Inl e \<Rightarrow> ShowWarning ''Copy SVG'' e
      | Inr svg \<Rightarrow> if clipboard_ok then Copied svg else ShowError ''Copy SVG'')"

text \<open>
  Sample renderers: one that returns a small document with a kerned text run, a white
  page background and coloured shapes, and one whose text holds a colour written with
  percentages.
\<close>

definition sample_svg :: string where
  \<open>sample_svg = ''<svg>
<rect x="0" y="0" width="50" height="100" fill="#ffffff"/>
<text x="1 2 3" y="5 5 5">abc</text>
<path fill="#ff0000" d="M0 0L5 5"/>
</svg>''\<close>

definition sample_renderer :: renderer where
  "sample_renderer d req = Inr sample_svg"

definition percent_renderer :: renderer where
  \<open>percent_renderer d req = Inr ''<text x="1" y="5">rgb(100%,0%,0%)</text>''\<close>

definition st_all_passes :: app_state where
  "st_all_passes = st_sel\<lparr>remove_kerning := True, remove_background := True,
                            convert_grayscale := True\<rparr>"

section \<open>Occurrences of a pattern\<close>

text \<open>
  Independently of the search order: a string is taken by an item if all its characters
  are in the item's class and its length is in the item's range; a pattern occurs in a
  text if some part of the text splits into strings taken by the items in turn.
\<close>

definition seg_ok :: "item \<Rightarrow> string \<Rightarrow> bool" where
  "seg_ok it seg =
     (list_all (cls_matches (item_cls it)) seg \<and> item_min it \<le> length seg
      \<and> (case item_max it of None \<Rightarrow> True | Some h \<Rightarrow> length seg \<le> h))"

definition occurs_in :: "item list \<Rightarrow> string \<Rightarrow> bool" where
  "occurs_in p s = (\<exists>pre segs post. s = pre @ concat segs @ post \<and> list_all2 seg_ok p segs)"

text \<open>A line is dropped if the loop of the background pass, run on it alone, keeps nothing.\<close>

definition line_dropped :: "string \<Rightarrow> bool" where
  "line_dropped line = (filter_lines [line] = [])"

(*PROPERTIES*)

section \<open>Evaluating the passes on concrete text\<close>

text \<open>Unfolding these definitions lets the simplifier run a pass on a literal string.\<close>

lemmas regex_eval = lit_def once_def many0_def many1_def at_least_def exactly_def capture_def
  max_count_def re_sub_def group0_def group1_def bind_err_def Let_def after_match_def
  re_sub_template_def is_space_def is_digit_def is_hex_digit_def

lemmas kerning_eval = remove_svg_kerning_def merge_text_spans_def pat_kerned_text_def
  pat_x_group_def pat_y_group_def pat_text_content_def pat_x_attr_def pat_y_attr_def

lemmas background_eval = remove_svg_background_def is_white_def pat_hv_def

lemmas grayscale_eval = convert_svg_grayscale_def pat_rgb_def pat_hex_def rgb_to_gray_def
  hex_to_gray_def int_or_raise_def py_int_def strip_def int16_def hex_digit_value_def
  str_of_int_def format_02x_def zero_pad_def digit_char_def

section \<open>Properties of zoom and selection\<close>

lemma render_current_page_zoom_level:
  "render_current_page env st = Inr st' \<Longrightarrow> zoom_level st' = zoom_level st"
  by (auto simp: render_current_page_def clear_selection_def Let_def
           split: if_splits prod.splits)

text \<open>
  Claim C10. Starting from a zoom level in \<open>[0.1, 10]\<close>, the zoom level stored after
  \<^verbatim>\<open>_on_zoom\<close> is again in \<open>[0.1, 10]\<close>; it is either the old value or the old value
  times 1.1 or 0.9, clamped; and \<^verbatim>\<open>_render_current_page\<close> is called exactly when the
  stored value changed.
\<close>

theorem on_zoom_zoom_level_in_range:
  assumes "1 / 10 \<le> zoom_level st" and "zoom_level st \<le> 10"
    and "on_zoom env ev st = (st', rendered)"
  shows "1 / 10 \<le> zoom_level st' \<and> zoom_level st' \<le> 10
     \<and> (rendered \<longleftrightarrow> zoom_level st' \<noteq> zoom_level st)
     \<and> (zoom_level st' = zoom_level st
          \<or> zoom_level st' = max (1 / 10) (min 10 (zoom_level st * (11 / 10)))
          \<or> zoom_level st' = max (1 / 10) (min 10 (zoom_level st * (9 / 10))))"
  using assms
  by (auto simp: on_zoom_def zoom_factor_def Let_def dest!: render_current_page_zoom_level
           split: if_splits option.splits sum.splits)

theorem on_zoom_zoom_level_in_range_witness:
  "1 / 10 \<le> zoom_level st0 \<and> zoom_level st0 \<le> 10
   \<and> zoom_level (fst (on_zoom env0 ev_scroll_up st0)) = 11 / 10
   \<and> snd (on_zoom env0 ev_scroll_up st0)"
  using on_zoom_zoom_level_in_range [of st0 env0 ev_scroll_up
      "fst (on_zoom env0 ev_scroll_up st0)" "snd (on_zoom env0 ev_scroll_up st0)"]
  by (simp add: st0_def on_zoom_def zoom_factor_def ev_scroll_up_def env0_def
        render_current_page_def clear_selection_def Let_def)

lemma clamp_neg_bound:
  fixes a w :: int
  shows "w < 0 \<Longrightarrow> min (max 0 a) w = w"
  by simp

lemma clamp_nonneg:
  fixes a w :: int
  shows "0 \<le> w \<Longrightarrow> 0 \<le> min (max 0 a) w"
  by simp

lemma span_order:
  fixes p q :: int
  shows "\<not> max p q - min p q < 1 \<Longrightarrow> min p q + 1 \<le> max p q"
  by simp

lemma clamped_span:
  fixes a b w :: int
  assumes "\<not> max (min (max 0 a) w) (min (max 0 b) w) - min (min (max 0 a) w) (min (max 0 b) w) < 1"
  shows "0 \<le> min (min (max 0 a) w) (min (max 0 b) w)
       \<and> min (min (max 0 a) w) (min (max 0 b) w) + 1 \<le> max (min (max 0 a) w) (min (max 0 b) w)"
proof (cases "w < 0")
  case True
  have "min (max 0 a) w = w" "min (max 0 b) w = w"
    using True by (rule clamp_neg_bound)+
  with assms have "\<not> max w w - min w w < 1" by (simp only:)
  then show ?thesis by simp
next
  case False
  then have w: "0 \<le> w" by simp
  have "0 \<le> min (max 0 a) w" "0 \<le> min (max 0 b) w"
    using w by (rule clamp_nonneg)+
  then have "0 \<le> min (min (max 0 a) w) (min (max 0 b) w)"
    by (rule min.boundedI)
  with span_order [OF assms] show ?thesis by blast
qed

lemma get_selection_rect_image_coords_ordered:
  assumes "get_selection_rect_image_coords st = Some (px0, py0, px1, py1)"
  shows "0 \<le> px0 \<and> px0 + 1 \<le> px1 \<and> 0 \<le> py0 \<and> py0 + 1 \<le> py1"
proof -
  note d = get_selection_rect_image_coords_def
  obtain p0 where p0: "sel_start st = Some p0"
    using assms by (cases "sel_start st") (simp_all only: d option.case prod.case option.distinct)
  obtain p1 where p1: "sel_end st = Some p1"
    using assms
    by (cases "sel_end st"; cases p0)
       (simp_all only: d p0 option.case prod.case option.distinct)
  obtain wh where wh: "photo st = Some wh"
    using assms
    by (cases "photo st"; cases p0; cases p1)
       (simp_all only: d p0 p1 option.case prod.case option.distinct)
  obtain sx0 sy0 sx1 sy1 w h where "p0 = (sx0, sy0)" "p1 = (sx1, sy1)" "wh = (w, h)"
    by (cases p0; cases p1; cases wh) blast
  with p0 p1 wh have s: "sel_start st = Some (sx0, sy0)"
      "sel_end st = Some (sx1, sy1)" "photo st = Some (w, h)"
    by (simp_all only:)
  let ?rx0 = "min (min (max 0 sx0) w) (min (max 0 sx1) w)"
  let ?rx1 = "max (min (max 0 sx0) w) (min (max 0 sx1) w)"
  let ?ry0 = "min (min (max 0 sy0) h) (min (max 0 sy1) h)"
  let ?ry1 = "max (min (max 0 sy0) h) (min (max 0 sy1) h)"
  have r: "get_selection_rect_image_coords st
       = (if ?rx1 - ?rx0 < 1 \<or> ?ry1 - ?ry0 < 1 then None else Some (?rx0, ?ry0, ?rx1, ?ry1))"
    by (simp only: d s Let_def option.case prod.case)
  have nx: "\<not> ?rx1 - ?rx0 < 1" and ny: "\<not> ?ry1 - ?ry0 < 1"
    using assms unfolding r by (metis option.distinct(1))+
  have c: "\<not> (?rx1 - ?rx0 < 1 \<or> ?ry1 - ?ry0 < 1)" using nx ny by blast
  have "get_selection_rect_image_coords st = Some (?rx0, ?ry0, ?rx1, ?ry1)"
    unfolding r using c by (rule if_not_P)
  with assms have "Some (?rx0, ?ry0, ?rx1, ?ry1) = Some (px0, py0, px1, py1)"
    by (simp only:)
  then have e: "px0 = ?rx0" "px1 = ?rx1" "py0 = ?ry0" "py1 = ?ry1"
    by (simp_all only: option.inject prod.inject)
  show ?thesis unfolding e using clamped_span [OF nx] clamped_span [OF ny] by blast
qed

section \<open>Properties of the export\<close>

lemma bind_err_Inl_iff:
  "bind_err m f = Inl e \<longleftrightarrow> m = Inl e \<or> (\<exists>v. m = Inr v \<and> f v = Inl e)"
  by (cases m) (simp_all add: bind_err_def)

lemma bind_err_Inr_iff:
  "bind_err m f = Inr r \<longleftrightarrow> (\<exists>v. m = Inr v \<and> f v = Inr r)"
  by (cases m) (simp_all add: bind_err_def)

lemma bind_err_simps [simp]:
  "bind_err (Inl e) f = Inl e" "bind_err (Inr v) f = f v"
  by (simp_all add: bind_err_def)

lemma re_sub_scan_error:
  "re_sub_scan p f k s = Inl e \<Longrightarrow> \<exists>segs. f segs = Inl e"
proof (induction p f k s rule: re_sub_scan.induct)
  case (1 p f skip)
  then show ?case by (auto split: if_splits option.splits)
next
  case (2 p f k c cs)
  then show ?case by simp
next
  case (3 p f c cs)
  then show ?case
    by (auto simp: bind_err_Inl_iff split: option.splits if_splits)
qed

lemma checked_error: "checked x = Inl e \<Longrightarrow> e = OverflowError"
  by (simp add: checked_def split: if_splits)

lemma gray_of_error: "gray_of r g b = Inl e \<Longrightarrow> e = OverflowError"
  by (auto simp: gray_of_def bind_err_Inl_iff float_of_int_def fmul_def fadd_def
           dest: checked_error)

lemma int_or_raise_error: "int_or_raise s = Inl e \<Longrightarrow> e = ValueError"
  by (simp add: int_or_raise_def split: option.splits)

lemma int16_error: "int16 s = Inl e \<Longrightarrow> e = ValueError"
  by (simp add: int16_def split: if_splits)

lemma rgb_to_gray_error: "rgb_to_gray segs = Inl e \<Longrightarrow> e = ValueError \<or> e = OverflowError"
  by (auto simp: rgb_to_gray_def Let_def bind_err_Inl_iff
           dest: int_or_raise_error gray_of_error split: list.splits)

lemma hex_to_gray_error: "hex_to_gray segs = Inl e \<Longrightarrow> e = ValueError \<or> e = OverflowError"
  by (auto simp: hex_to_gray_def Let_def bind_err_Inl_iff
           dest: int16_error gray_of_error split: if_splits)

lemma convert_svg_grayscale_error:
  "convert_svg_grayscale svg = Inl e \<Longrightarrow> e = ValueError \<or> e = OverflowError"
  by (auto simp: convert_svg_grayscale_def re_sub_def bind_err_Inl_iff
           dest!: re_sub_scan_error dest: rgb_to_gray_error hex_to_gray_error)

lemma selection_pdf_rect_None_iff:
  "selection_pdf_rect st = None \<longleftrightarrow> get_selection_rect_image_coords st = None \<or> doc st = None"
  by (cases "get_selection_rect_image_coords st")
     (simp_all add: selection_pdf_rect_def Let_def split: prod.splits)

section \<open>Properties of the matcher\<close>

lemma try_down_eq_None:
  "try_down f lo k = None \<longleftrightarrow> (\<forall>n. lo \<le> n \<and> n \<le> lo + k \<longrightarrow> f n = None)"
proof (induction k)
  case 0
  then show ?case by auto
next
  case (Suc k)
  have "(\<forall>n. lo \<le> n \<and> n \<le> lo + Suc k \<longrightarrow> f n = None)
      \<longleftrightarrow> f (lo + Suc k) = None \<and> (\<forall>n. lo \<le> n \<and> n \<le> lo + k \<longrightarrow> f n = None)"
    by (metis add_Suc_right le_Suc_eq le_add1)
  with Suc show ?case by (simp split: option.splits)
qed

lemma try_down_Some:
  "try_down f lo k = Some r \<Longrightarrow> \<exists>n. lo \<le> n \<and> n \<le> lo + k \<and> f n = Some r"
proof (induction k)
  case 0
  then show ?case by auto
next
  case (Suc k)
  show ?case
  proof (cases "f (lo + Suc k)")
    case None
    with Suc.prems have "try_down f lo k = Some r" by simp
    from Suc.IH [OF this] show ?thesis by (metis add_Suc_right le_Suc_eq)
  next
    case (Some a)
    with Suc.prems have "f (lo + Suc k) = Some r" by simp
    then show ?thesis by (metis le_add1 order_refl)
  qed
qed

text \<open>The greatest count with a match wins.\<close>

lemma try_down_greatest:
  assumes "lo \<le> n" and "n \<le> lo + k" and "f n = Some r"
    and "\<And>m. n < m \<Longrightarrow> m \<le> lo + k \<Longrightarrow> f m = None"
  shows "try_down f lo k = Some r"
  using assms
proof (induction k)
  case 0
  then show ?case by simp
next
  case (Suc k)
  show ?case
  proof (cases "n = lo + Suc k")
    case True
    with Suc.prems(3) show ?thesis by simp
  next
    case False
    with Suc.prems(2) have le: "n \<le> lo + k" and lt: "n < lo + Suc k" by simp_all
    have none: "f (lo + Suc k) = None" using Suc.prems(4) [OF lt] by simp
    have "try_down f lo k = Some r"
      using Suc.IH [OF Suc.prems(1) le Suc.prems(3)] Suc.prems(4) by simp
    with none show ?thesis by simp
  qed
qed

lemma max_count_le_length: "max_count it s \<le> length s"
proof -
  have "length (takeWhile (cls_matches (item_cls it)) s) \<le> length s"
    by (rule length_takeWhile_le)
  then show ?thesis by (auto simp: max_count_def Let_def split: option.splits)
qed

lemma take_all_match:
  assumes "n \<le> length (takeWhile P s)"
  shows "list_all P (take n s)"
proof -
  have "take n s = take n (takeWhile P s)"
    using assms by (metis append_eq_conv_conj take_append takeWhile_dropWhile_id
        diff_is_0_eq take_0 append_Nil2)
  moreover have "list_all P (takeWhile P s)"
    by (simp add: list_all_iff) (meson set_takeWhileD)
  ultimately show ?thesis
    by (metis list_all_append append_take_drop_id)
qed

lemma prefix_all_takeWhile:
  assumes "list_all P u"
  shows "length u \<le> length (takeWhile P (u @ v))"
  using assms by (induction u) simp_all

lemma match_here_sound:
  "match_here p s = Some segs \<Longrightarrow> list_all2 seg_ok p segs \<and> prefix (concat segs) s"
proof (induction p arbitrary: s segs)
  case Nil
  then show ?case by simp
next
  case (Cons it rest)
  let ?hi = "max_count it s"
  let ?f = "\<lambda>n. map_option (\<lambda>segs. take n s # segs) (match_here rest (drop n s))"
  from Cons.prems have ge: "\<not> ?hi < item_min it"
    and td: "try_down ?f (item_min it) (?hi - item_min it) = Some segs"
    by (simp_all add: Let_def split: if_splits)
  from try_down_Some [OF td] obtain n where n: "item_min it \<le> n"
      "n \<le> item_min it + (?hi - item_min it)" "?f n = Some segs"
    by blast
  from n(2) ge have nhi: "n \<le> ?hi" by simp
  from n(3) obtain segs' where r: "match_here rest (drop n s) = Some segs'"
      and segs: "segs = take n s # segs'"
    by auto
  from Cons.IH [OF r] have ih: "list_all2 seg_ok rest segs'" "prefix (concat segs') (drop n s)"
    by simp_all
  have nlen: "n \<le> length s" using nhi max_count_le_length [of it s] by simp
  have ntw: "n \<le> length (takeWhile (cls_matches (item_cls it)) s)"
    using nhi by (simp add: max_count_def Let_def split: option.splits)
  have "seg_ok it (take n s)"
    using n(1) nlen nhi ntw take_all_match [OF ntw]
    by (auto simp: seg_ok_def max_count_def Let_def split: option.splits)
  moreover have "prefix (take n s @ concat segs') s"
    using ih(2) by (metis append_take_drop_id same_prefix_prefix)
  ultimately show ?case using ih(1) segs by simp
qed

lemma match_here_complete:
  "list_all2 seg_ok p segs \<Longrightarrow> prefix (concat segs) s \<Longrightarrow> match_here p s \<noteq> None"
proof (induction p arbitrary: s segs)
  case Nil
  then show ?case by simp
next
  case (Cons it rest)
  from Cons.prems(1) obtain seg segs' where segs: "segs = seg # segs'"
      and ok: "seg_ok it seg" and rest: "list_all2 seg_ok rest segs'"
    by (auto simp: list_all2_Cons1)
  from Cons.prems(2) segs obtain t where s: "s = seg @ concat segs' @ t"
    by (auto simp: prefix_def)
  let ?n = "length seg"
  let ?hi = "max_count it s"
  let ?f = "\<lambda>n. map_option (\<lambda>segs. take n s # segs) (match_here rest (drop n s))"
  have tw: "?n \<le> length (takeWhile (cls_matches (item_cls it)) s)"
    unfolding s using ok by (intro prefix_all_takeWhile) (simp add: seg_ok_def)
  have nhi: "?n \<le> ?hi"
    using tw ok by (simp add: max_count_def seg_ok_def Let_def split: option.splits)
  have lo: "item_min it \<le> ?n" using ok by (simp add: seg_ok_def)
  have "match_here rest (drop ?n s) \<noteq> None"
    using Cons.IH [OF rest, of "drop ?n s"] by (simp add: s)
  then have fn: "?f ?n \<noteq> None" by simp
  have "try_down ?f (item_min it) (?hi - item_min it) \<noteq> None"
    using fn lo nhi by (auto simp: try_down_eq_None)
  then show ?case using lo nhi by (simp add: Let_def)
qed

lemma re_search_None_iff_match_here:
  "re_search p s = None \<longleftrightarrow> (\<forall>i \<le> length s. match_here p (drop i s) = None)"
proof (induction s)
  case Nil
  then show ?case by (simp split: option.splits)
next
  case (Cons c cs)
  have eq: "(\<forall>i \<le> length (c # cs). match_here p (drop i (c # cs)) = None)
     \<longleftrightarrow> match_here p (c # cs) = None \<and> (\<forall>i \<le> length cs. match_here p (drop i cs) = None)"
    (is "?L \<longleftrightarrow> ?R")
  proof
    assume l: ?L
    have "match_here p (drop 0 (c # cs)) = None" using l by blast
    moreover have "\<forall>i \<le> length cs. match_here p (drop i cs) = None"
    proof (intro allI impI)
      fix i assume "i \<le> length cs"
      then have "Suc i \<le> length (c # cs)" by simp
      with l have "match_here p (drop (Suc i) (c # cs)) = None" by blast
      then show "match_here p (drop i cs) = None" by simp
    qed
    ultimately show ?R by simp
  next
    assume r: ?R
    show ?L
    proof (intro allI impI)
      fix i assume "i \<le> length (c # cs)"
      then show "match_here p (drop i (c # cs)) = None"
        using r by (cases i) simp_all
    qed
  qed
  have a: "re_search p (c # cs) = None
      \<longleftrightarrow> match_here p (c # cs) = None \<and> re_search p cs = None"
    by (auto split: option.splits)
  show ?case unfolding a Cons.IH eq by (rule refl)
qed

lemma re_search_sound:
  "re_search p s = Some (pre, segs, post)
   \<Longrightarrow> s = pre @ concat segs @ post \<and> list_all2 seg_ok p segs"
proof (induction s arbitrary: pre)
  case Nil
  then have m: "match_here p [] = Some segs" and e: "pre = []" "post = []"
    by (simp_all split: option.splits)
  from match_here_sound [OF m] e show ?case by simp
next
  case (Cons c cs)
  show ?case
  proof (cases "match_here p (c # cs)")
    case (Some segs0)
    with Cons.prems have e: "pre = []" "segs = segs0" "post = after_match segs0 (c # cs)"
      by auto
    from match_here_sound [OF Some] have "list_all2 seg_ok p segs0" "prefix (concat segs0) (c # cs)"
      by simp_all
    then show ?thesis
      unfolding e after_match_def by (auto simp: prefix_def)
  next
    case None
    with Cons.prems obtain pre' where r: "re_search p cs = Some (pre', segs, post)"
        and e: "pre = c # pre'"
      by (auto split: option.splits)
    from Cons.IH [OF r] e show ?thesis by simp
  qed
qed

lemma re_search_None_iff: "re_search p s = None \<longleftrightarrow> \<not> occurs_in p s"
proof
  assume n: "re_search p s = None"
  show "\<not> occurs_in p s"
  proof
    assume "occurs_in p s"
    then obtain pre segs post where s: "s = pre @ concat segs @ post"
        and ok: "list_all2 seg_ok p segs"
      unfolding occurs_in_def by blast
    have "match_here p (drop (length pre) s) \<noteq> None"
      using match_here_complete [OF ok, of "drop (length pre) s"] by (simp add: s)
    moreover have "length pre \<le> length s" by (simp add: s)
    ultimately show False using n by (simp add: re_search_None_iff_match_here)
  qed
next
  assume n: "\<not> occurs_in p s"
  show "re_search p s = None"
  proof (rule ccontr)
    assume "re_search p s \<noteq> None"
    then obtain pre segs post where "re_search p s = Some (pre, segs, post)"
      by (cases "re_search p s") auto
    from re_search_sound [OF this] have "occurs_in p s"
      unfolding occurs_in_def by blast
    with n show False by simp
  qed
qed



section \<open>Properties of the string operations\<close>

lemma contains_iff: "contains sub s \<longleftrightarrow> (\<exists>pre post. s = pre @ sub @ post)"
proof (induction s)
  case Nil
  then show ?case by auto
next
  case (Cons c cs)
  show ?case
  proof
    assume "contains sub (c # cs)"
    then consider "prefix sub (c # cs)" | "contains sub cs" by auto
    then show "\<exists>pre post. c # cs = pre @ sub @ post"
    proof cases
      case 1
      then obtain post where "c # cs = sub @ post" by (auto simp: prefix_def)
      then have "c # cs = [] @ sub @ post" by simp
      then show ?thesis by blast
    next
      case 2
      with Cons obtain pre post where "cs = pre @ sub @ post" by blast
      then have "c # cs = (c # pre) @ sub @ post" by simp
      then show ?thesis by blast
    qed
  next
    assume "\<exists>pre post. c # cs = pre @ sub @ post"
    then obtain pre post where e: "c # cs = pre @ sub @ post" by blast
    show "contains sub (c # cs)"
    proof (cases pre)
      case Nil
      with e have "prefix sub (c # cs)" by (simp add: prefix_def)
      then show ?thesis by simp
    next
      case (Cons a pre')
      with e have "cs = pre' @ sub @ post" by simp
      with Cons.IH have "contains sub cs" by blast
      then show ?thesis by simp
    qed
  qed
qed

lemma split_on_not_Nil: "split_on sep s \<noteq> []"
  by (induction s) (auto split: list.splits)


lemma split_on_no_sep: "sep \<notin> set l \<Longrightarrow> split_on sep l = [l]"
  by (induction l) auto

lemma split_on_append_sep:
  "sep \<notin> set l \<Longrightarrow> split_on sep (l @ sep # s) = l # split_on sep s"
  by (induction l) auto

lemma split_on_join:
  "ls \<noteq> [] \<Longrightarrow> \<forall>l \<in> set ls. sep \<notin> set l \<Longrightarrow> split_on sep (join [sep] ls) = ls"
proof (induction ls)
  case Nil
  then show ?case by simp
next
  case (Cons l rest)
  then have l: "sep \<notin> set l" by simp
  show ?case
  proof (cases rest)
    case Nil
    then show ?thesis using l by (simp add: split_on_no_sep)
  next
    case (Cons r rs)
    then have "split_on sep (join [sep] rest) = rest" using Cons.IH Cons.prems by simp
    then show ?thesis using l Cons by (simp add: split_on_append_sep)
  qed
qed

lemma split_on_lines_no_sep: "l \<in> set (split_on sep s) \<Longrightarrow> sep \<notin> set l"
proof (induction s arbitrary: l)
  case Nil
  then show ?case by simp
next
  case (Cons c cs)
  obtain h t where r: "split_on sep cs = h # t"
    using split_on_not_Nil [of sep cs] by (cases "split_on sep cs") auto
  show ?case
  proof (cases "c = sep")
    case True
    with Cons show ?thesis by auto
  next
    case False
    with Cons.prems r have "l = c # h \<or> l \<in> set t" by simp
    moreover have "sep \<notin> set h" using Cons.IH [of h] r by simp
    moreover have "l \<in> set t \<Longrightarrow> sep \<notin> set l" using Cons.IH [of l] r by simp
    ultimately show ?thesis using False by auto
  qed
qed

section \<open>Properties of the background pass\<close>

lemma line_dropped_iff:
  \<open>line_dropped line \<longleftrightarrow>
     is_white line
     \<and> (contains ''<rect'' line \<and> (contains ''x="0"'' line \<or> contains ''y="0"'' line)
        \<or> contains ''<path'' line \<and> occurs_in pat_hv line)\<close>
  by (simp add: line_dropped_def re_search_None_iff)

lemma filter_lines_eq: "filter_lines ls = filter (\<lambda>l. \<not> line_dropped l) ls"
  by (induction ls) (auto simp: line_dropped_def)

lemma remove_svg_background_lines:
  assumes "ls \<noteq> []" and "\<forall>l \<in> set ls. CHR 0x0A \<notin> set l"
  shows "remove_svg_background (join [CHR 0x0A] ls)
       = join [CHR 0x0A] (filter (\<lambda>l. \<not> line_dropped l) ls)"
  by (simp add: remove_svg_background_def split_on_join [OF assms] filter_lines_eq)


lemma pat_hv_occurs_iff:
  "occurs_in pat_hv s \<longleftrightarrow>
     (\<exists>pre c ws ds post. s = pre @ c # ws @ ds @ post \<and> (c = CHR ''H'' \<or> c = CHR ''V'')
        \<and> list_all is_space ws \<and> list_all is_digit ds \<and> 3 \<le> length ds)"
proof
  assume "occurs_in pat_hv s"
  then obtain pre segs post where s: "s = pre @ concat segs @ post"
      and ok: "list_all2 seg_ok pat_hv segs"
    unfolding occurs_in_def by blast
  from ok obtain a ws ds where segs: "segs = [a, ws, ds]"
      and a: "seg_ok (once (OneOf ''HV'')) a" and w: "seg_ok (many0 Space) ws"
      and d: "seg_ok (at_least 3 Digit) ds"
    by (auto simp: pat_hv_def list_all2_Cons1)
  from a obtain c where c: "a = [c]" "c = CHR ''H'' \<or> c = CHR ''V''"
    by (cases a) (auto simp: seg_ok_def once_def)
  have "list_all is_space ws" using w by (simp add: seg_ok_def many0_def list_all_iff)
  moreover have "list_all is_digit ds \<and> 3 \<le> length ds"
    using d by (simp add: seg_ok_def at_least_def list_all_iff)
  moreover have "s = pre @ c # ws @ ds @ post" using s segs c by simp
  ultimately show "\<exists>pre c ws ds post. s = pre @ c # ws @ ds @ post
      \<and> (c = CHR ''H'' \<or> c = CHR ''V'') \<and> list_all is_space ws \<and> list_all is_digit ds
      \<and> 3 \<le> length ds"
    using c(2) by blast
next
  assume "\<exists>pre c ws ds post. s = pre @ c # ws @ ds @ post
      \<and> (c = CHR ''H'' \<or> c = CHR ''V'') \<and> list_all is_space ws \<and> list_all is_digit ds
      \<and> 3 \<le> length ds"
  then obtain pre c ws ds post where s: "s = pre @ c # ws @ ds @ post"
      and c: "c = CHR ''H'' \<or> c = CHR ''V''" and w: "list_all is_space ws"
      and d: "list_all is_digit ds" "3 \<le> length ds"
    by blast
  have "list_all2 seg_ok pat_hv [[c], ws, ds]"
    using c w d by (auto simp: pat_hv_def seg_ok_def once_def many0_def at_least_def list_all_iff)
  moreover have "s = pre @ concat [[c], ws, ds] @ post" using s by simp
  ultimately show "occurs_in pat_hv s" unfolding occurs_in_def by blast
qed

text \<open>
  Claim C4, as stated: a rectangle is dropped only if both \<^verbatim>\<open>x="0"\<close> and \<^verbatim>\<open>y="0"\<close>. It
  fails: a white rectangle at \<open>x = 0\<close>, \<open>y = 50\<close> is dropped although its line has no
  \<^verbatim>\<open>y="0"\<close>.
\<close>

theorem remove_svg_background_rect_counterexample:
  \<open>remove_svg_background ''<svg>
<rect x="0" y="50" width="10" height="10" fill="#ffffff"/>
</svg>'' = ''<svg>
</svg>''
   \<and> \<not> contains ''y="0"'' ''<rect x="0" y="50" width="10" height="10" fill="#ffffff"/>''\<close>
  by (simp add: background_eval regex_eval)

text \<open>
  Claim C4, amended: the lines of the document are those between newlines. The pass
  drops a line that contains \<^verbatim>\<open><rect\<close> and no \<^verbatim>\<open><path\<close> if and only if the line contains
  one of the literals \<^verbatim>\<open>fill="#ffffff"\<close>, \<^verbatim>\<open>fill="#fff"\<close>, \<^verbatim>\<open>fill="rgb(255,255,255)"\<close>,
  \<^verbatim>\<open>fill="white"\<close> and contains \<^verbatim>\<open>x="0"\<close> or \<^verbatim>\<open>y="0"\<close>; the output is the lines
  that are not dropped, unchanged and in their order.
\<close>

theorem remove_svg_background_rect_lines:
  assumes "ls \<noteq> []" and "\<forall>l \<in> set ls. CHR 0x0A \<notin> set l"
  shows \<open>remove_svg_background (join [CHR 0x0A] ls)
           = join [CHR 0x0A] (filter (\<lambda>l. \<not> line_dropped l) ls)
         \<and> (\<forall>l. contains ''<rect'' l \<and> \<not> contains ''<path'' l \<longrightarrow>
               (line_dropped l \<longleftrightarrow>
                  (contains ''fill="#ffffff"'' l \<or> contains ''fill="#fff"'' l
                   \<or> contains ''fill="rgb(255,255,255)"'' l \<or> contains ''fill="white"'' l)
                  \<and> (contains ''x="0"'' l \<or> contains ''y="0"'' l)))\<close>
proof (intro conjI allI impI)
  show "remove_svg_background (join [CHR 0x0A] ls)
           = join [CHR 0x0A] (filter (\<lambda>l. \<not> line_dropped l) ls)"
    using assms by (rule remove_svg_background_lines)
next
  fix l
  assume a: \<open>contains ''<rect'' l \<and> \<not> contains ''<path'' l\<close>
  show \<open>line_dropped l \<longleftrightarrow>
          (contains ''fill="#ffffff"'' l \<or> contains ''fill="#fff"'' l
           \<or> contains ''fill="rgb(255,255,255)"'' l \<or> contains ''fill="white"'' l)
          \<and> (contains ''x="0"'' l \<or> contains ''y="0"'' l)\<close>
    unfolding line_dropped_iff is_white_def using a by blast
qed

theorem remove_svg_background_rect_lines_witness:
  \<open>remove_svg_background (join [CHR 0x0A]
       [''<svg>'', ''<rect x="0" y="0" width="9" height="9" fill="white"/>'',
        ''<rect x="5" y="5" width="2" height="2" fill="white"/>'', ''</svg>''])
     = join [CHR 0x0A] [''<svg>'', ''<rect x="5" y="5" width="2" height="2" fill="white"/>'', ''</svg>'']
   \<and> line_dropped ''<rect x="0" y="0" width="9" height="9" fill="white"/>''
   \<and> \<not> line_dropped ''<rect x="5" y="5" width="2" height="2" fill="white"/>''\<close>
proof -
  have d: \<open>line_dropped ''<rect x="0" y="0" width="9" height="9" fill="white"/>''\<close>
    by (simp add: line_dropped_def is_white_def)
  have k: \<open>\<not> line_dropped ''<rect x="5" y="5" width="2" height="2" fill="white"/>''\<close>
    by (simp add: line_dropped_def is_white_def)
  have s: \<open>\<not> line_dropped ''<svg>''\<close> \<open>\<not> line_dropped ''</svg>''\<close>
    by (simp_all add: line_dropped_def is_white_def)
  have \<open>remove_svg_background (join [CHR 0x0A]
       [''<svg>'', ''<rect x="0" y="0" width="9" height="9" fill="white"/>'',
        ''<rect x="5" y="5" width="2" height="2" fill="white"/>'', ''</svg>''])
     = join [CHR 0x0A] (filter (\<lambda>l. \<not> line_dropped l)
       [''<svg>'', ''<rect x="0" y="0" width="9" height="9" fill="white"/>'',
        ''<rect x="5" y="5" width="2" height="2" fill="white"/>'', ''</svg>''])\<close>
    using remove_svg_background_rect_lines [of
       \<open>[''<svg>'', ''<rect x="0" y="0" width="9" height="9" fill="white"/>'',
        ''<rect x="5" y="5" width="2" height="2" fill="white"/>'', ''</svg>'']\<close>]
    by simp
  then show ?thesis using d k s by simp
qed

text \<open>
  Claim C5, as stated: a path is dropped if and only if its fill is white and its path
  data has a horizontal or vertical line command of three or more digits. It fails in
  both directions: a white path whose data \<^verbatim>\<open>M0 0L5 5\<close> has no such command is dropped
  because its \<^verbatim>\<open>id\<close> is \<^verbatim>\<open>V100\<close>, and a white path drawn with the relative commands
  \<^verbatim>\<open>h612 v792\<close> is kept.
\<close>

theorem remove_svg_background_path_counterexample:
  \<open>remove_svg_background ''<svg>
<path id="V100" fill="white" d="M0 0L5 5"/>
<path fill="white" d="M0 0h612v792h-612z"/>
</svg>'' = ''<svg>
<path fill="white" d="M0 0h612v792h-612z"/>
</svg>''
   \<and> re_search pat_hv ''M0 0L5 5'' = None\<close>
  by (simp add: background_eval regex_eval)

text \<open>
  Claim C5, amended: the pass drops a line that contains \<^verbatim>\<open><path\<close> and no \<^verbatim>\<open><rect\<close> if
  and only if the line contains one of the four white fill literals and, anywhere in the
  line, an upper-case \<^verbatim>\<open>H\<close> or \<^verbatim>\<open>V\<close> followed by any whitespace and at least three
  decimal digits; the output is the lines that are not dropped, unchanged and in their
  order.
\<close>

theorem remove_svg_background_path_lines:
  assumes "ls \<noteq> []" and "\<forall>l \<in> set ls. CHR 0x0A \<notin> set l"
  shows \<open>remove_svg_background (join [CHR 0x0A] ls)
           = join [CHR 0x0A] (filter (\<lambda>l. \<not> line_dropped l) ls)
         \<and> (\<forall>l. contains ''<path'' l \<and> \<not> contains ''<rect'' l \<longrightarrow>
               (line_dropped l \<longleftrightarrow>
                  (contains ''fill="#ffffff"'' l \<or> contains ''fill="#fff"'' l
                   \<or> contains ''fill="rgb(255,255,255)"'' l \<or> contains ''fill="white"'' l)
                  \<and> (\<exists>pre c ws ds post. l = pre @ c # ws @ ds @ post
                        \<and> (c = CHR ''H'' \<or> c = CHR ''V'') \<and> list_all is_space ws
                        \<and> list_all is_digit ds \<and> 3 \<le> length ds)))\<close>
proof (intro conjI allI impI)
  show "remove_svg_background (join [CHR 0x0A] ls)
           = join [CHR 0x0A] (filter (\<lambda>l. \<not> line_dropped l) ls)"
    using assms by (rule remove_svg_background_lines)
next
  fix l
  assume a: \<open>contains ''<path'' l \<and> \<not> contains ''<rect'' l\<close>
  show \<open>line_dropped l \<longleftrightarrow>
          (contains ''fill="#ffffff"'' l \<or> contains ''fill="#fff"'' l
           \<or> contains ''fill="rgb(255,255,255)"'' l \<or> contains ''fill="white"'' l)
          \<and> (\<exists>pre c ws ds post. l = pre @ c # ws @ ds @ post
                \<and> (c = CHR ''H'' \<or> c = CHR ''V'') \<and> list_all is_space ws
                \<and> list_all is_digit ds \<and> 3 \<le> length ds)\<close>
    unfolding line_dropped_iff is_white_def pat_hv_occurs_iff using a by blast
qed

theorem remove_svg_background_path_lines_witness:
  \<open>remove_svg_background (join [CHR 0x0A]
       [''<svg>'', ''<path fill="#ffffff" d="M0 0H612V792H0Z"/>'',
        ''<path fill="#ffffff" d="M1 1H9V9H1Z"/>'', ''</svg>''])
     = join [CHR 0x0A] [''<svg>'', ''<path fill="#ffffff" d="M1 1H9V9H1Z"/>'', ''</svg>'']
   \<and> line_dropped ''<path fill="#ffffff" d="M0 0H612V792H0Z"/>''
   \<and> \<not> line_dropped ''<path fill="#ffffff" d="M1 1H9V9H1Z"/>''\<close>
proof -
  have d: \<open>line_dropped ''<path fill="#ffffff" d="M0 0H612V792H0Z"/>''\<close>
    by (simp add: line_dropped_def is_white_def pat_hv_def regex_eval)
  have k: \<open>\<not> line_dropped ''<path fill="#ffffff" d="M1 1H9V9H1Z"/>''\<close>
    by (simp add: line_dropped_def is_white_def pat_hv_def regex_eval)
  have s: \<open>\<not> line_dropped ''<svg>''\<close> \<open>\<not> line_dropped ''</svg>''\<close>
    by (simp_all add: line_dropped_def is_white_def)
  have \<open>remove_svg_background (join [CHR 0x0A]
       [''<svg>'', ''<path fill="#ffffff" d="M0 0H612V792H0Z"/>'',
        ''<path fill="#ffffff" d="M1 1H9V9H1Z"/>'', ''</svg>''])
     = join [CHR 0x0A] (filter (\<lambda>l. \<not> line_dropped l)
       [''<svg>'', ''<path fill="#ffffff" d="M0 0H612V792H0Z"/>'',
        ''<path fill="#ffffff" d="M1 1H9V9H1Z"/>'', ''</svg>''])\<close>
    using remove_svg_background_path_lines [of
       \<open>[''<svg>'', ''<path fill="#ffffff" d="M0 0H612V792H0Z"/>'',
        ''<path fill="#ffffff" d="M1 1H9V9H1Z"/>'', ''</svg>'']\<close>]
    by simp
  then show ?thesis using d k s by simp
qed

section \<open>Properties of the page request\<close>

lemmas float_eval = fl_def ilog2_def pow2_def round_half_even_def bit_len.simps Let_def

lemma fl_zero [simp]: "fl 0 = 0"
  by (simp add: fl_def)

lemma rect_width_pos_truthy:
  assumes "0 < rect_width c"
  shows "rect_truthy c"
proof -
  have "x1 c - x0 c \<noteq> 0"
  proof
    assume "x1 c - x0 c = 0"
    then have "rect_width c = 0" by (simp add: rect_width_def)
    with assms show False by simp
  qed
  then show ?thesis by (auto simp: rect_truthy_def)
qed

text \<open>
  Claim C2. For a valid selection whose clip rectangle has positive width and height,
  \<^verbatim>\<open>_svg_from_selection\<close> asks for a new page of exactly the clip's width and height,
  shows the clipped region of the current page in the target rectangle
  \<open>(0, 0, width, height)\<close> of that page, and returns the rewritten SVG of that page; the
  origin of the output is therefore the top-left corner of the selection.
\<close>

theorem svg_from_selection_new_page:
  assumes "doc st = Some d" and "selection_pdf_rect st = Some c"
    and "0 < rect_width c" and "0 < rect_height c"
  shows "\<exists>req. svg_from_selection render st = bind_err (render d req) (apply_passes st)
     \<and> new_page_width req = rect_width c \<and> new_page_height req = rect_height c
     \<and> target req = Rect 0 0 (rect_width c) (rect_height c)
     \<and> clip req = c \<and> src_pno req = page_index st
     \<and> text_as_path req = (\<not> preserve_text st)"
proof -
  have t: "rect_truthy c" using assms(3) by (rule rect_width_pos_truthy)
  let ?req = "\<lparr>new_page_width = rect_width c, new_page_height = rect_height c,
       target = Rect 0 0 (rect_width c) (rect_height c), src_pno = page_index st,
       clip = c, text_as_path = (\<not> preserve_text st)\<rparr>"
  have "svg_from_selection render st = bind_err (render d ?req) (apply_passes st)"
    using assms t by (simp add: svg_from_selection_def Let_def)
  then show ?thesis
    by (intro exI [of _ ?req]) simp
qed

lemma fl_millionth: "fl (1 / 1000000) = 4722366482869645 / 4722366482869645213696"
  by (simp add: float_eval)

lemma sel_st_sel: "selection_pdf_rect st_sel = Some (Rect 5 10 55 110)"
proof -
  have g: "get_selection_rect_image_coords st_sel = Some (10, 20, 110, 220)"
    by (simp add: st_sel_def st0_def get_selection_rect_image_coords_def Let_def)
  have d: "doc st_sel \<noteq> None" "scale st_sel = 2" by (simp_all add: st_sel_def st0_def)
  have k: "fl (1 / max 2 (fl (1 / 1000000))) = 1 / 2"
    unfolding fl_millionth by (simp add: float_eval)
  have c: "fl 10 = 10" "fl 20 = 20" "fl 110 = 110" "fl 220 = 220"
      "fl 5 = 5" "fl 55 = 55"
    by (simp_all add: float_eval)
  show ?thesis
    unfolding selection_pdf_rect_def g using d(1)
    by (simp add: d(2) k c Let_def)
qed

lemma rect_sample_size:
  "rect_width (Rect 5 10 55 110) = 50" "rect_height (Rect 5 10 55 110) = 100"
proof -
  have "fl 50 = 50" "fl 100 = 100" by (simp_all add: float_eval)
  then show "rect_width (Rect 5 10 55 110) = 50" "rect_height (Rect 5 10 55 110) = 100"
    by (simp_all add: rect_width_def rect_height_def Rect_def)
qed

theorem svg_from_selection_new_page_witness:
  "doc st_sel = Some \<lparr>page_count = 1\<rparr> \<and> selection_pdf_rect st_sel = Some (Rect 5 10 55 110)
   \<and> rect_width (Rect 5 10 55 110) = 50 \<and> rect_height (Rect 5 10 55 110) = 100
   \<and> (\<exists>req. svg_from_selection sample_renderer st_sel
              = bind_err (sample_renderer \<lparr>page_count = 1\<rparr> req) (apply_passes st_sel)
        \<and> new_page_width req = 50 \<and> new_page_height req = 100
        \<and> target req = Rect 0 0 50 100)"
proof -
  have a: "doc st_sel = Some \<lparr>page_count = 1\<rparr>" by (simp add: st_sel_def st0_def)
  note w = rect_sample_size(1) and h = rect_sample_size(2)
  have "\<exists>req. svg_from_selection sample_renderer st_sel
              = bind_err (sample_renderer \<lparr>page_count = 1\<rparr> req) (apply_passes st_sel)
        \<and> new_page_width req = 50 \<and> new_page_height req = 100
        \<and> target req = Rect 0 0 50 100"
    using svg_from_selection_new_page [OF a sel_st_sel, of sample_renderer]
    by (simp only: w h) (use zero_less_numeral in blast)
  with a sel_st_sel w h show ?thesis by blast
qed

section \<open>Exceptions of the export\<close>

lemma sel_st_all_passes: "selection_pdf_rect st_all_passes = Some (Rect 5 10 55 110)"
proof -
  have g: "get_selection_rect_image_coords st_all_passes = Some (10, 20, 110, 220)"
    by (simp add: st_all_passes_def st_sel_def st0_def get_selection_rect_image_coords_def Let_def)
  have d: "doc st_all_passes \<noteq> None" "scale st_all_passes = 2"
    by (simp_all add: st_all_passes_def st_sel_def st0_def)
  have k: "fl (1 / max 2 (fl (1 / 1000000))) = 1 / 2"
    unfolding fl_millionth by (simp add: float_eval)
  have c: "fl 10 = 10" "fl 20 = 20" "fl 110 = 110" "fl 220 = 220"
      "fl 5 = 5" "fl 55 = 55"
    by (simp_all add: float_eval)
  show ?thesis
    unfolding selection_pdf_rect_def g using d(1)
    by (simp add: d(2) k c Let_def)
qed

lemma svg_from_selection_valid:
  assumes "doc st = Some d" and "selection_pdf_rect st = Some c"
    and "0 < rect_width c" and "0 < rect_height c"
  shows "svg_from_selection render st
     = bind_err (render d \<lparr>new_page_width = rect_width c, new_page_height = rect_height c,
          target = Rect 0 0 (rect_width c) (rect_height c), src_pno = page_index st,
          clip = c, text_as_path = (\<not> preserve_text st)\<rparr>) (apply_passes st)"
  using assms rect_width_pos_truthy [OF assms(3)]
  by (simp add: svg_from_selection_def Let_def)

lemma percent_fails:
  \<open>apply_passes st_all_passes ''<text x="1" y="5">rgb(100%,0%,0%)</text>'' = Inl ValueError\<close>
proof -
  have k: \<open>remove_svg_kerning ''<text x="1" y="5">rgb(100%,0%,0%)</text>''
      = Inr ''<text x="1" y="5">rgb(100%,0%,0%)</text>''\<close>
    by (simp add: kerning_eval regex_eval)
  have b: \<open>remove_svg_background ''<text x="1" y="5">rgb(100%,0%,0%)</text>''
      = ''<text x="1" y="5">rgb(100%,0%,0%)</text>''\<close>
    by (simp add: background_eval regex_eval)
  have g: \<open>convert_svg_grayscale ''<text x="1" y="5">rgb(100%,0%,0%)</text>'' = Inl ValueError\<close>
    by (simp add: grayscale_eval regex_eval)
  show ?thesis
    unfolding apply_passes_def k
    by (simp only: bind_err_simps Let_def b g st_all_passes_def st_sel_def st0_def
          app_state.simps simp_thms if_True)
qed

text \<open>
  Claim C9 at a failing input. A document is open, the selection \<open>(10, 20, 110, 220)\<close> is
  valid and its clip rectangle is 50 by 100 points, all passes are enabled, and the
  rendered text holds a colour written with percentages. The grayscale pass raises
  \<^verbatim>\<open>ValueError\<close> on it, so \<^verbatim>\<open>_svg_from_selection\<close> raises although none of the three
  conditions of the claim holds, and export and copy report a warning. On a triple of
  two values the same callback returns the text unchanged.
\<close>

theorem svg_from_selection_percent_colour_raises:
  \<open>doc st_all_passes = Some \<lparr>page_count = 1\<rparr>
   \<and> get_selection_rect_image_coords st_all_passes = Some (10, 20, 110, 220)
   \<and> selection_pdf_rect st_all_passes = Some (Rect 5 10 55 110)
   \<and> rect_width (Rect 5 10 55 110) = 50 \<and> rect_height (Rect 5 10 55 110) = 100
   \<and> svg_from_selection percent_renderer st_all_passes = Inl ValueError
   \<and> export_selection_as_svg percent_renderer st_all_passes ''out.svg'' True
       = ShowWarning ''Export SVG'' ValueError
   \<and> copy_svg_to_clipboard percent_renderer st_all_passes True
       = ShowWarning ''Copy SVG'' ValueError
   \<and> convert_svg_grayscale ''rgb(100%,0%)'' = Inr ''rgb(100%,0%)''\<close>
proof -
  have a: "doc st_all_passes = Some \<lparr>page_count = 1\<rparr>"
    by (simp add: st_all_passes_def st_sel_def st0_def)
  have g: "get_selection_rect_image_coords st_all_passes = Some (10, 20, 110, 220)"
    by (simp add: st_all_passes_def st_sel_def st0_def get_selection_rect_image_coords_def Let_def)
  note w = rect_sample_size(1) and h = rect_sample_size(2)
  have s: "svg_from_selection percent_renderer st_all_passes = Inl ValueError"
    using svg_from_selection_valid [OF a sel_st_all_passes, of percent_renderer] percent_fails
    by (simp add: w h percent_renderer_def)
  have e: "export_selection_as_svg percent_renderer st_all_passes ''out.svg'' True
       = ShowWarning ''Export SVG'' ValueError"
    by (simp add: export_selection_as_svg_def s)
  have c: "copy_svg_to_clipboard percent_renderer st_all_passes True
       = ShowWarning ''Copy SVG'' ValueError"
    by (simp add: copy_svg_to_clipboard_def s)
  have t: \<open>convert_svg_grayscale ''rgb(100%,0%)'' = Inr ''rgb(100%,0%)''\<close>
    by (simp add: grayscale_eval regex_eval)
  from a g sel_st_all_passes w h s e c t show ?thesis by blast
qed

section \<open>Order of the passes\<close>

lemma apply_passes_Inr:
  assumes "apply_passes st svg = Inr out"
  shows "\<exists>s1 s2.
       (if preserve_text st \<and> remove_kerning st then remove_svg_kerning svg = Inr s1
        else s1 = svg)
     \<and> s2 = (if remove_background st then remove_svg_background s1 else s1)
     \<and> (if convert_grayscale st then convert_svg_grayscale s2 = Inr out else out = s2)"
  using assms
  by (auto simp: apply_passes_def Let_def bind_err_Inr_iff split: if_splits)

lemma svg_from_selection_Inr:
  assumes "svg_from_selection render st = Inr out"
  shows "\<exists>d req svg. doc st = Some d \<and> render d req = Inr svg \<and> apply_passes st svg = Inr out"
  using assms
  by (auto simp: svg_from_selection_def Let_def bind_err_Inr_iff
           split: option.splits if_splits)

text \<open>
  Claim C8. Whenever \<^verbatim>\<open>_svg_from_selection\<close> returns an SVG, it is the rendered SVG
  rewritten by the kerning merge if both text preservation and kerning removal are
  enabled, then by the background removal if enabled, then by the grayscale conversion
  if enabled, for every setting of the toggles.
\<close>

theorem svg_from_selection_pass_order:
  assumes "svg_from_selection render st = Inr out"
  shows "\<exists>d req svg s1 s2. doc st = Some d \<and> render d req = Inr svg
     \<and> text_as_path req = (\<not> preserve_text st)
     \<and> (if preserve_text st \<and> remove_kerning st then remove_svg_kerning svg = Inr s1
        else s1 = svg)
     \<and> s2 = (if remove_background st then remove_svg_background s1 else s1)
     \<and> (if convert_grayscale st then convert_svg_grayscale s2 = Inr out else out = s2)"
proof -
  from assms obtain d c where d: "doc st = Some d" and c: "selection_pdf_rect st = Some c"
      and ok: "rect_truthy c" "\<not> (rect_width c \<le> 0 \<or> rect_height c \<le> 0)"
    by (auto simp: svg_from_selection_def split: option.splits if_splits)
  let ?req = "\<lparr>new_page_width = rect_width c, new_page_height = rect_height c,
       target = Rect 0 0 (rect_width c) (rect_height c), src_pno = page_index st,
       clip = c, text_as_path = (\<not> preserve_text st)\<rparr>"
  have "svg_from_selection render st = bind_err (render d ?req) (apply_passes st)"
    using d c ok by (simp add: svg_from_selection_def Let_def)
  with assms obtain svg where r: "render d ?req = Inr svg" and a: "apply_passes st svg = Inr out"
    by (auto simp: bind_err_Inr_iff)
  from apply_passes_Inr [OF a] obtain s1 s2 where
      k: "if preserve_text st \<and> remove_kerning st then remove_svg_kerning svg = Inr s1
          else s1 = svg"
      and b: "s2 = (if remove_background st then remove_svg_background s1 else s1)"
      and g: "if convert_grayscale st then convert_svg_grayscale s2 = Inr out else out = s2"
    by blast
  have tp: "text_as_path ?req = (\<not> preserve_text st)" by simp
  from d r tp k b g show ?thesis by blast
qed

lemma sample_kerning:
  \<open>remove_svg_kerning sample_svg = Inr ''<svg>
<rect x="0" y="0" width="50" height="100" fill="#ffffff"/>
<text x="1" y="5">abc</text>
<path fill="#ff0000" d="M0 0L5 5"/>
</svg>''\<close>
  by (simp add: sample_svg_def kerning_eval regex_eval)

lemma sample_background:
  \<open>remove_svg_background ''<svg>
<rect x="0" y="0" width="50" height="100" fill="#ffffff"/>
<text x="1" y="5">abc</text>
<path fill="#ff0000" d="M0 0L5 5"/>
</svg>'' = ''<svg>
<text x="1" y="5">abc</text>
<path fill="#ff0000" d="M0 0L5 5"/>
</svg>''\<close>
  by (simp add: background_eval regex_eval)

lemma bind_err_weak_cong: "m = m' \<Longrightarrow> bind_err m f = bind_err m' f"
  by simp

lemmas gray_eval = gray_of_def float_of_int_def fmul_def fadd_def checked_def int_of_float_def

lemma gray_red: "gray_of 255 0 0 = Inr 76"
  by (simp add: gray_eval float_eval cong: bind_err_weak_cong)

lemma sample_grayscale:
  \<open>convert_svg_grayscale ''<svg>
<text x="1" y="5">abc</text>
<path fill="#ff0000" d="M0 0L5 5"/>
</svg>'' = Inr ''<svg>
<text x="1" y="5">abc</text>
<path fill="#4c4c4c" d="M0 0L5 5"/>
</svg>''\<close>
  by (simp add: grayscale_eval regex_eval gray_red)

theorem svg_from_selection_pass_order_witness:
  \<open>svg_from_selection sample_renderer st_all_passes = Inr ''<svg>
<text x="1" y="5">abc</text>
<path fill="#4c4c4c" d="M0 0L5 5"/>
</svg>''
   \<and> (\<exists>d req svg s1 s2. doc st_all_passes = Some d \<and> sample_renderer d req = Inr svg
     \<and> remove_svg_kerning svg = Inr s1 \<and> s2 = remove_svg_background s1
     \<and> convert_svg_grayscale s2 = Inr ''<svg>
<text x="1" y="5">abc</text>
<path fill="#4c4c4c" d="M0 0L5 5"/>
</svg>'')\<close>
proof -
  have a: "doc st_all_passes = Some \<lparr>page_count = 1\<rparr>"
    by (simp add: st_all_passes_def st_sel_def st0_def)
  have t: "preserve_text st_all_passes" "remove_kerning st_all_passes"
      "remove_background st_all_passes" "convert_grayscale st_all_passes"
    by (simp_all add: st_all_passes_def st_sel_def st0_def)
  have p: \<open>apply_passes st_all_passes sample_svg = Inr ''<svg>
<text x="1" y="5">abc</text>
<path fill="#4c4c4c" d="M0 0L5 5"/>
</svg>''\<close>
    unfolding apply_passes_def
    by (simp only: t simp_thms if_True sample_kerning bind_err_simps Let_def
          sample_background sample_grayscale)
  have s: \<open>svg_from_selection sample_renderer st_all_passes = Inr ''<svg>
<text x="1" y="5">abc</text>
<path fill="#4c4c4c" d="M0 0L5 5"/>
</svg>''\<close>
    using svg_from_selection_valid [OF a sel_st_all_passes, of sample_renderer] p
    by (simp add: rect_sample_size sample_renderer_def)
  from svg_from_selection_pass_order [OF s] obtain d req svg s1 s2 where
      f: "doc st_all_passes = Some d" "sample_renderer d req = Inr svg"
      and k: "if preserve_text st_all_passes \<and> remove_kerning st_all_passes
              then remove_svg_kerning svg = Inr s1 else s1 = svg"
      and b: "s2 = (if remove_background st_all_passes then remove_svg_background s1 else s1)"
      and g: \<open>if convert_grayscale st_all_passes
              then convert_svg_grayscale s2 = Inr ''<svg>
<text x="1" y="5">abc</text>
<path fill="#4c4c4c" d="M0 0L5 5"/>
</svg>'' else ''<svg>
<text x="1" y="5">abc</text>
<path fill="#4c4c4c" d="M0 0L5 5"/>
</svg>'' = s2\<close>
    by blast
  have k': "remove_svg_kerning svg = Inr s1" using k t by simp
  have b': "s2 = remove_svg_background s1" using b t by simp
  have g': \<open>convert_svg_grayscale s2 = Inr ''<svg>
<text x="1" y="5">abc</text>
<path fill="#4c4c4c" d="M0 0L5 5"/>
</svg>''\<close> using g t by simp
  from s f k' b' g' show ?thesis by blast
qed

section \<open>Substitution touches matches only\<close>











section \<open>Properties of the rounding\<close>

lemma bit_len_bounds:
  "0 < n \<Longrightarrow> 2 ^ (bit_len n - 1) \<le> n \<and> n < 2 ^ bit_len n"
proof (induction n rule: less_induct)
  case (less n)
  show ?case
  proof (cases "n div 2 = 0")
    case True
    with less.prems have "n = 1" by (simp add: div_eq_0_iff) 
    then show ?thesis by (simp add: bit_len.simps)
  next
    case False
    then have pos: "0 < n div 2" by simp
    have lt: "n div 2 < n" using less.prems by simp
    from less.IH [OF lt pos] have ih: "2 ^ (bit_len (n div 2) - 1) \<le> n div 2"
        "n div 2 < 2 ^ bit_len (n div 2)"
      by simp_all
    have bl: "bit_len n = Suc (bit_len (n div 2))"
      using less.prems by (subst bit_len.simps) simp
    have b1: "0 < bit_len (n div 2)" using pos by (subst bit_len.simps) simp
    have "2 ^ (bit_len n - 1) = 2 * 2 ^ (bit_len (n div 2) - 1)"
      using b1 by (simp add: bl power_Suc [symmetric] power_Suc)
    also have "\<dots> \<le> 2 * (n div 2)" using ih(1) by simp
    also have "\<dots> \<le> n" by simp
    finally have lo: "2 ^ (bit_len n - 1) \<le> n" .
    have "n < 2 * (n div 2) + 2" by presburger
    also have "\<dots> \<le> 2 * 2 ^ bit_len (n div 2)" using ih(2) by simp
    also have "\<dots> = 2 ^ bit_len n" by (simp add: bl)
    finally show ?thesis using lo by simp
  qed
qed

lemma pow2_pos [simp]: "0 < pow2 e"
  by (simp add: pow2_def)

lemma pow2_nonneg [simp]: "0 \<le> pow2 e"
  using pow2_pos [of e] by (simp only: less_imp_le)

lemma pow2_neq_zero [simp]: "pow2 e \<noteq> 0"
  using pow2_pos [of e] by (simp only: less_imp_neq [THEN not_sym] not_False_eq_True)

lemma pow2_not_le_zero [simp]: "\<not> pow2 e \<le> 0"
  using pow2_pos [of e] by (simp only: not_le)

lemma pow2_powr: "pow2 e = 2 powr real_of_int e"
proof (cases "0 \<le> e")
  case True
  then have "2 powr real_of_int e = 2 powr real (nat e)" by simp
  also have "\<dots> = 2 ^ nat e" by (simp add: powr_realpow)
  finally show ?thesis using True by (simp add: pow2_def)
next
  case False
  then have "2 powr real_of_int e = 2 powr (- real (nat (- e)))" by simp
  also have "\<dots> = 1 / 2 powr real (nat (- e))" by (simp add: powr_minus divide_inverse)
  also have "\<dots> = 1 / 2 ^ nat (- e)" by (simp add: powr_realpow)
  finally show ?thesis using False by (simp add: pow2_def)
qed

lemma pow2_add: "pow2 (a + b) = pow2 a * pow2 b"
  by (simp add: pow2_powr powr_add)

lemma pow2_mono: "a \<le> b \<Longrightarrow> pow2 a \<le> pow2 b"
  by (simp add: pow2_powr)

lemma pow2_less_iff: "pow2 a < pow2 b \<longleftrightarrow> a < b"
  by (simp add: pow2_powr)

lemma pow2_nat: "pow2 (int n) = 2 ^ n"
  by (simp add: pow2_def)

lemma pow2_neg_nat: "pow2 (- int n) = 1 / 2 ^ n"
  by (simp add: pow2_powr powr_minus divide_inverse powr_realpow)

lemma ilog2_bounds:
  assumes "0 < x"
  shows "pow2 (ilog2 x) \<le> x \<and> x < pow2 (ilog2 x + 1)"
proof (cases "1 \<le> x")
  case True
  define n where "n = nat \<lfloor>x\<rfloor>"
  have f1: "1 \<le> \<lfloor>x\<rfloor>" using True by simp
  then have rn: "real n = real_of_int \<lfloor>x\<rfloor>" by (simp add: n_def)
  have n: "0 < n" "real n \<le> x" "x < real n + 1"
  proof -
    show "0 < n" using f1 by (simp add: n_def)
    show "real n \<le> x" unfolding rn by (rule of_int_floor_le)
    show "x < real n + 1" unfolding rn using floor_correct [of x] by linarith
  qed
  have e: "ilog2 x = int (bit_len n) - 1" using True by (simp add: ilog2_def n_def)
  from bit_len_bounds [OF n(1)] have b: "2 ^ (bit_len n - 1) \<le> n" "n < 2 ^ bit_len n"
    by simp_all
  have bp: "0 < bit_len n" using n(1) by (subst bit_len.simps) simp
  have e': "ilog2 x = int (bit_len n - 1)" using bp e by simp
  have "pow2 (ilog2 x) = 2 ^ (bit_len n - 1)" unfolding e' by (rule pow2_nat)
  also have "\<dots> \<le> real n" using b(1) by (metis of_nat_le_iff of_nat_numeral of_nat_power)
  finally have lo: "pow2 (ilog2 x) \<le> x" using n(2) by simp
  have "ilog2 x + 1 = int (bit_len n)" using e by simp
  then have "pow2 (ilog2 x + 1) = 2 ^ bit_len n" by (simp add: pow2_nat)
  moreover have "real n + 1 \<le> 2 ^ bit_len n"
    using b(2) by (metis Suc_leI of_nat_Suc of_nat_le_iff of_nat_numeral of_nat_power add.commute
        of_nat_1 of_nat_add)
  ultimately show ?thesis using lo n(3) by simp
next
  case False
  then have x1: "x < 1" by simp
  define y where "y = 1 / x"
  have y1: "1 < y" using assms x1 by (simp add: y_def)
  define n where "n = nat (\<lceil>y\<rceil> - 1)"
  have c2: "2 \<le> \<lceil>y\<rceil>" using y1 by linarith
  have rn: "real n = real_of_int \<lceil>y\<rceil> - 1" using c2 by (simp add: n_def)
  have n: "0 < n" "real n < y" "y \<le> real n + 1"
  proof -
    show "0 < n" using c2 by (simp add: n_def)
    show "real n < y" unfolding rn using ceiling_correct [of y] by linarith
    show "y \<le> real n + 1" unfolding rn using ceiling_correct [of y] by linarith
  qed
  have e: "ilog2 x = - int (bit_len n)" using False by (simp add: ilog2_def n_def y_def)
  from bit_len_bounds [OF n(1)] have b: "2 ^ (bit_len n - 1) \<le> n" "n < 2 ^ bit_len n"
    by simp_all
  have bp: "0 < bit_len n" using n(1) by (subst bit_len.simps) simp
  have up: "y \<le> 2 ^ bit_len n"
  proof -
    have "real n + 1 \<le> 2 ^ bit_len n"
      using b(2) by (metis Suc_leI of_nat_Suc of_nat_le_iff of_nat_numeral of_nat_power add.commute
          of_nat_1 of_nat_add)
    with n(3) show ?thesis by linarith
  qed
  have dn: "2 ^ (bit_len n - 1) < y"
  proof -
    have "(2::real) ^ (bit_len n - 1) \<le> real n"
      using b(1) by (metis of_nat_le_iff of_nat_numeral of_nat_power)
    with n(2) show ?thesis by linarith
  qed
  have p1: "pow2 (ilog2 x) = 1 / 2 ^ bit_len n"
    unfolding e by (rule pow2_neg_nat)
  have "1 / 2 ^ bit_len n \<le> 1 / y"
    using up y1 by (intro divide_left_mono) (simp_all)
  then have lo: "pow2 (ilog2 x) \<le> x"
    using p1 assms by (simp add: y_def)
  have "ilog2 x + 1 = - int (bit_len n - 1)" using e bp by (simp)
  then have p2: "pow2 (ilog2 x + 1) = 1 / 2 ^ (bit_len n - 1)"
    by (simp only: pow2_neg_nat)
  have "1 / y < 1 / 2 ^ (bit_len n - 1)"
    using dn y1 by (intro divide_strict_left_mono) (simp_all)
  then have "x < pow2 (ilog2 x + 1)" using p2 assms by (simp add: y_def)
  with lo show ?thesis by (simp)
qed

lemma floor_frac:
  fixes z :: real
  shows "0 \<le> z - real_of_int \<lfloor>z\<rfloor>" "z - real_of_int \<lfloor>z\<rfloor> < 1"
  using floor_correct [of z] by linarith+

lemma round_half_even_cases:
  "round_half_even z = \<lfloor>z\<rfloor> \<and> z - real_of_int \<lfloor>z\<rfloor> \<le> 1 / 2
   \<or> round_half_even z = \<lfloor>z\<rfloor> + 1 \<and> 1 / 2 \<le> z - real_of_int \<lfloor>z\<rfloor>"
  unfolding round_half_even_def Let_def
  by (cases "z - real_of_int \<lfloor>z\<rfloor> < 1 / 2"; cases "1 / 2 < z - real_of_int \<lfloor>z\<rfloor>";
      cases "even \<lfloor>z\<rfloor>") simp_all

lemma round_half_even_error: "\<bar>real_of_int (round_half_even z) - z\<bar> \<le> 1 / 2"
proof -
  note f = floor_frac [of z]
  from round_half_even_cases [of z] show ?thesis
  proof
    assume "round_half_even z = \<lfloor>z\<rfloor> \<and> z - real_of_int \<lfloor>z\<rfloor> \<le> 1 / 2"
    then show ?thesis using f by (simp add: abs_le_iff)
  next
    assume "round_half_even z = \<lfloor>z\<rfloor> + 1 \<and> 1 / 2 \<le> z - real_of_int \<lfloor>z\<rfloor>"
    then show ?thesis using f by (simp add: abs_le_iff)
  qed
qed

lemma round_half_even_ge_floor: "\<lfloor>z\<rfloor> \<le> round_half_even z"
  using round_half_even_cases [of z] by auto

lemma round_half_even_le_ceiling: "round_half_even z \<le> \<lceil>z\<rceil>"
proof -
  from round_half_even_cases [of z] show ?thesis
  proof
    assume "round_half_even z = \<lfloor>z\<rfloor> \<and> z - real_of_int \<lfloor>z\<rfloor> \<le> 1 / 2"
    then show ?thesis by (simp add: floor_le_ceiling)
  next
    assume a: "round_half_even z = \<lfloor>z\<rfloor> + 1 \<and> 1 / 2 \<le> z - real_of_int \<lfloor>z\<rfloor>"
    then have "real_of_int \<lfloor>z\<rfloor> < z" by simp
    then have "\<lfloor>z\<rfloor> < \<lceil>z\<rceil>" by (simp add: floor_less_iff less_ceiling_iff)
    with a show ?thesis by simp
  qed
qed

lemma round_half_even_mono:
  assumes "z \<le> z'"
  shows "round_half_even z \<le> round_half_even z'"
proof (cases "\<lfloor>z\<rfloor> = \<lfloor>z'\<rfloor>")
  case True
  have d: "z - real_of_int \<lfloor>z\<rfloor> \<le> z' - real_of_int \<lfloor>z'\<rfloor>" using assms True by simp
  show ?thesis
    unfolding round_half_even_def Let_def using d True by auto
next
  case False
  with assms have lt: "\<lfloor>z\<rfloor> < \<lfloor>z'\<rfloor>" using floor_mono [of z z'] by linarith
  have "round_half_even z \<le> \<lfloor>z\<rfloor> + 1" using round_half_even_cases [of z] by auto
  also have "\<dots> \<le> \<lfloor>z'\<rfloor>" using lt by simp
  also have "\<dots> \<le> round_half_even z'" by (rule round_half_even_ge_floor)
  finally show ?thesis .
qed

lemma ilog2_mono:
  assumes "0 < x" and "x \<le> y"
  shows "ilog2 x \<le> ilog2 y"
proof -
  have "pow2 (ilog2 x) \<le> x" using ilog2_bounds [OF assms(1)] by simp
  also have "x \<le> y" by fact
  also have "y < pow2 (ilog2 y + 1)" using ilog2_bounds [of y] assms by simp
  finally have "ilog2 x < ilog2 y + 1" by (simp only: pow2_less_iff)
  then show ?thesis by simp
qed

lemma fl_quantum_error:
  assumes "x \<noteq> 0"
  shows "\<bar>fl x - x\<bar> \<le> pow2 (max (ilog2 \<bar>x\<bar> - 52) (- 1074)) / 2"
proof -
  define q where "q = max (ilog2 \<bar>x\<bar> - 52) (- 1074)"
  have f: "fl x = of_int (round_half_even (x / pow2 q)) * pow2 q"
    using assms by (simp add: fl_def q_def Let_def)
  have p: "0 < pow2 q" by simp
  have "fl x - x = (of_int (round_half_even (x / pow2 q)) - x / pow2 q) * pow2 q"
    using p by (simp add: f field_simps)
  then have "\<bar>fl x - x\<bar> = \<bar>of_int (round_half_even (x / pow2 q)) - x / pow2 q\<bar> * pow2 q"
    using p by (simp add: abs_mult)
  also have "\<dots> \<le> 1 / 2 * pow2 q"
    using round_half_even_error [of "x / pow2 q"] p by (intro mult_right_mono) simp_all
  finally show ?thesis by (simp add: q_def)
qed

lemma pow2_half: "pow2 e / 2 = pow2 (e - 1)"
proof -
  have "pow2 e = pow2 (e - 1) * pow2 1" using pow2_add [of "e - 1" 1] by simp
  also have "pow2 1 = 2" by (simp add: pow2_def)
  finally show ?thesis by simp
qed

lemma fl_error: "\<bar>fl x - x\<bar> \<le> \<bar>x\<bar> * pow2 (- 53) + pow2 (- 1075)"
proof (cases "x = 0")
  case True
  have "0 < pow2 (- 1075)" by (rule pow2_pos)
  with True show ?thesis by simp
next
  case False
  define e where "e = ilog2 \<bar>x\<bar>"
  have b: "pow2 e \<le> \<bar>x\<bar>" using ilog2_bounds [of "\<bar>x\<bar>"] False by (simp add: e_def)
  have pp: "0 < pow2 (- 1075)" "0 < pow2 (- 53)" by (rule pow2_pos)+
  show ?thesis
  proof (cases "- 1074 \<le> e - 52")
    case True
    then have "max (e - 52) (- 1074) = e - 52" by simp
    with fl_quantum_error [OF False] have "\<bar>fl x - x\<bar> \<le> pow2 (e - 52) / 2" by (simp add: e_def)
    also have "\<dots> = pow2 (e - 53)" by (simp add: pow2_half)
    also have "\<dots> = pow2 e * pow2 (- 53)" using pow2_add [of e "- 53"] by simp
    also have "\<dots> \<le> \<bar>x\<bar> * pow2 (- 53)" using b pp(2) by (intro mult_right_mono) simp_all
    finally show ?thesis using pp(1) by linarith
  next
    case False2: False
    then have "max (e - 52) (- 1074) = - 1074" by simp
    with fl_quantum_error [OF False] have "\<bar>fl x - x\<bar> \<le> pow2 (- 1074) / 2" by (simp add: e_def)
    also have "\<dots> = pow2 (- 1075)" by (simp add: pow2_half)
    finally have "\<bar>fl x - x\<bar> \<le> pow2 (- 1075)" .
    moreover have "0 \<le> \<bar>x\<bar> * pow2 (- 53)" using pp(2) by simp
    ultimately show ?thesis by linarith
  qed
qed

lemma fl_error_normal:
  assumes "pow2 (- 1022) \<le> \<bar>x\<bar>"
  shows "\<bar>fl x - x\<bar> \<le> \<bar>x\<bar> * pow2 (- 53)"
proof -
  have x: "x \<noteq> 0" using assms pow2_pos [of "- 1022"] by auto
  define e where "e = ilog2 \<bar>x\<bar>"
  have b: "pow2 e \<le> \<bar>x\<bar>" "\<bar>x\<bar> < pow2 (e + 1)"
    using ilog2_bounds [of "\<bar>x\<bar>"] x by (simp_all add: e_def)
  from assms b(2) have "pow2 (- 1022) < pow2 (e + 1)" by linarith
  then have "- 1022 < e + 1" by (simp only: pow2_less_iff)
  then have "max (e - 52) (- 1074) = e - 52" by simp
  with fl_quantum_error [OF x] have "\<bar>fl x - x\<bar> \<le> pow2 (e - 52) / 2" by (simp add: e_def)
  also have "\<dots> = pow2 (e - 53)" by (simp add: pow2_half)
  also have "\<dots> = pow2 e * pow2 (- 53)" using pow2_add [of e "- 53"] by simp
  also have "\<dots> \<le> \<bar>x\<bar> * pow2 (- 53)"
    using b(1) pow2_pos [of "- 53"] by (intro mult_right_mono) simp_all
  finally show ?thesis .
qed

lemma fl_nonneg:
  assumes "0 \<le> x"
  shows "0 \<le> fl x"
proof (cases "x = 0")
  case True
  then show ?thesis by simp
next
  case False
  define q where "q = max (ilog2 \<bar>x\<bar> - 52) (- 1074)"
  have f: "fl x = of_int (round_half_even (x / pow2 q)) * pow2 q"
    using False by (simp add: fl_def q_def Let_def)
  have "0 \<le> x / pow2 q" using assms pow2_pos [of q] by simp
  then have "0 \<le> \<lfloor>x / pow2 q\<rfloor>" by simp
  also have "\<dots> \<le> round_half_even (x / pow2 q)" by (rule round_half_even_ge_floor)
  finally show ?thesis using pow2_pos [of q] by (simp add: f)
qed

lemma fl_mono_pos:
  assumes "0 < x" and "x \<le> y"
  shows "fl x \<le> fl y"
proof -
  define ex where "ex = ilog2 x"
  define ey where "ey = ilog2 y"
  define qx where "qx = max (ex - 52) (- 1074)"
  define qy where "qy = max (ey - 52) (- 1074)"
  have y: "0 < y" using assms by simp
  have fx: "fl x = of_int (round_half_even (x / pow2 qx)) * pow2 qx"
    using assms(1) by (simp add: fl_def qx_def ex_def Let_def)
  have fy: "fl y = of_int (round_half_even (y / pow2 qy)) * pow2 qy"
    using y by (simp add: fl_def qy_def ey_def Let_def)
  have e: "ex \<le> ey" unfolding ex_def ey_def by (rule ilog2_mono [OF assms])
  then have q: "qx \<le> qy" by (simp add: qx_def qy_def)
  show ?thesis
  proof (cases "qx = qy")
    case True
    have "x / pow2 qy \<le> y / pow2 qy" using assms(2) pow2_pos [of qy] by (simp add: divide_right_mono)
    then have "round_half_even (x / pow2 qy) \<le> round_half_even (y / pow2 qy)"
      by (rule round_half_even_mono)
    then have "real_of_int (round_half_even (x / pow2 qy)) \<le> real_of_int (round_half_even (y / pow2 qy))"
      by simp
    then show ?thesis
      unfolding fx fy True using pow2_pos [of qy] by (intro mult_right_mono) simp_all
  next
    case False
    with q have lt: "qx < qy" by simp
    then have qy: "qy = ey - 52" and exy: "ex + 1 \<le> ey"
      unfolding qx_def qy_def by linarith+
    define N where "N = max (ex + 1) qx"
    have Nq: "qx \<le> N" and Ne: "ex + 1 \<le> N" by (simp_all add: N_def)
    have Ny: "N \<le> ey" using exy lt qy by (simp add: N_def)
    \<comment> \<open>the smaller number rounds to at most \<open>2\<^sup>N\<close>\<close>
    have "x < pow2 (ex + 1)" using ilog2_bounds [OF assms(1)] by (simp add: ex_def)
    also have "\<dots> \<le> pow2 N" using Ne by (rule pow2_mono)
    finally have xN: "x < pow2 N" .
    have pN: "pow2 N = pow2 (N - qx) * pow2 qx" using pow2_add [of "N - qx" qx] by simp
    have "x / pow2 qx \<le> pow2 (N - qx)"
      using xN pow2_pos [of qx] by (simp add: pN pos_divide_le_eq)
    also have "pow2 (N - qx) = real_of_int (2 ^ nat (N - qx))"
      using Nq by (simp add: pow2_def)
    finally have "\<lceil>x / pow2 qx\<rceil> \<le> 2 ^ nat (N - qx)" by (simp only: ceiling_le_iff)
    with round_half_even_le_ceiling [of "x / pow2 qx"]
    have "round_half_even (x / pow2 qx) \<le> 2 ^ nat (N - qx)" by linarith
    then have "real_of_int (round_half_even (x / pow2 qx)) \<le> real_of_int (2 ^ nat (N - qx))"
      by (simp only: of_int_le_iff)
    also have "\<dots> = pow2 (N - qx)" using Nq by (simp add: pow2_def)
    finally have "fl x \<le> pow2 (N - qx) * pow2 qx"
      unfolding fx using pow2_pos [of qx] by (intro mult_right_mono) simp_all
    then have ux: "fl x \<le> pow2 N" by (simp only: pN)
    \<comment> \<open>the larger number rounds to at least \<open>2\<^sup>e\<close>\<close>
    have py: "pow2 ey = pow2 52 * pow2 qy" using pow2_add [of 52 qy] by (simp add: qy)
    have "pow2 ey \<le> y" using ilog2_bounds [OF y] by (simp add: ey_def)
    then have "pow2 52 \<le> y / pow2 qy" using pow2_pos [of qy] by (simp add: py pos_le_divide_eq)
    moreover have "pow2 52 = real_of_int (2 ^ 52)" by (simp add: pow2_def)
    ultimately have "real_of_int (2 ^ 52) \<le> y / pow2 qy" by simp
    then have "2 ^ 52 \<le> \<lfloor>y / pow2 qy\<rfloor>" by (simp only: le_floor_iff)
    with round_half_even_ge_floor [of "y / pow2 qy"]
    have "2 ^ 52 \<le> round_half_even (y / pow2 qy)" by linarith
    then have "real_of_int (2 ^ 52) \<le> real_of_int (round_half_even (y / pow2 qy))"
      by (simp only: of_int_le_iff)
    then have "pow2 52 \<le> real_of_int (round_half_even (y / pow2 qy))"
      by (simp add: pow2_def)
    then have "pow2 52 * pow2 qy \<le> fl y"
      unfolding fy using pow2_pos [of qy] by (intro mult_right_mono) simp_all
    then have ly: "pow2 ey \<le> fl y" by (simp only: py)
    have "pow2 N \<le> pow2 ey" using Ny by (rule pow2_mono)
    with ux ly show ?thesis by linarith
  qed
qed

lemma fl_mono_nonneg:
  assumes "0 \<le> x" and "x \<le> y"
  shows "fl x \<le> fl y"
proof (cases "x = 0")
  case True
  then show ?thesis using fl_nonneg [of y] assms by simp
next
  case False
  with assms show ?thesis by (intro fl_mono_pos) simp_all
qed

lemma scaled_error_arith:
  fixes A w u h a k c :: real
  assumes A: "0 \<le> A" and w: "0 \<le> w" and u: "0 \<le> u" "u \<le> 1 / 4" and h: "0 \<le> h"
    and a0: "0 \<le> a" and k0: "0 \<le> k"
    and h1: "\<bar>a - A\<bar> \<le> A * u"
    and h2: "\<bar>k - w\<bar> \<le> w * u + h"
    and h3: "\<bar>c - a * k\<bar> \<le> a * k * u + h"
  shows "\<bar>c - A * w\<bar> \<le> A * w * (4 * u) + (A + 1) * (2 * h)"
proof -
  have aU: "a \<le> A * (1 + u)" using h1 by (simp add: abs_le_iff algebra_simps)
  have kU: "k \<le> w * (1 + u) + h" using h2 by (simp add: abs_le_iff algebra_simps)
  have Au: "0 \<le> A * (1 + u)" using A u by simp
  have akU: "a * k \<le> A * (1 + u) * (w * (1 + u) + h)"
    using aU kU a0 k0 Au by (intro mult_mono) simp_all
  have "a * k * u \<le> A * (1 + u) * (w * (1 + u) + h) * u"
    using akU u(1) by (intro mult_right_mono)
  with h3 have T3: "\<bar>c - a * k\<bar> \<le> A * (1 + u) * (w * (1 + u) + h) * u + h" by linarith
  have "\<bar>a * (k - w)\<bar> = a * \<bar>k - w\<bar>" using a0 by (simp add: abs_mult)
  also have "\<dots> \<le> A * (1 + u) * (w * u + h)"
    using aU h2 a0 Au by (intro mult_mono) simp_all
  finally have T2: "\<bar>a * (k - w)\<bar> \<le> A * (1 + u) * (w * u + h)" .
  have "\<bar>w * (a - A)\<bar> = w * \<bar>a - A\<bar>" using w by (simp add: abs_mult)
  also have "\<dots> \<le> w * (A * u)" using h1 w by (intro mult_left_mono)
  finally have T1: "\<bar>w * (a - A)\<bar> \<le> w * (A * u)" .
  have d: "c - A * w = (c - a * k) + a * (k - w) + w * (a - A)" by (simp add: algebra_simps)
  have "\<bar>c - A * w\<bar> \<le> \<bar>c - a * k\<bar> + \<bar>a * (k - w)\<bar> + \<bar>w * (a - A)\<bar>"
    unfolding d by (intro order_trans [OF abs_triangle_ineq] add_mono order_refl)
  with T1 T2 T3 have s: "\<bar>c - A * w\<bar>
      \<le> A * (1 + u) * (w * (1 + u) + h) * u + h + A * (1 + u) * (w * u + h) + w * (A * u)"
    by linarith
  have e: "A * (1 + u) * (w * (1 + u) + h) * u + h + A * (1 + u) * (w * u + h) + w * (A * u)
      = A * w * u * ((1 + u)\<^sup>2 + (1 + u) + 1) + A * h * (1 + u)\<^sup>2 + h"
    by (simp add: algebra_simps power2_eq_square)
  have sq: "(1 + u)\<^sup>2 \<le> (5 / 4)\<^sup>2" using u by (intro power_mono) simp_all
  have Y: "(1 + u)\<^sup>2 \<le> 2"
  proof -
    have "((5::real) / 4)\<^sup>2 \<le> 2" by (simp add: power2_eq_square)
    with sq show ?thesis by linarith
  qed
  have X: "(1 + u)\<^sup>2 + (1 + u) + 1 \<le> 4"
  proof -
    have "((5::real) / 4)\<^sup>2 = 25 / 16" by (simp add: power2_eq_square)
    with sq u show ?thesis by linarith
  qed
  have "A * w * u * ((1 + u)\<^sup>2 + (1 + u) + 1) \<le> A * w * u * 4"
    using X A w u(1) by (intro mult_left_mono) simp_all
  moreover have "A * h * (1 + u)\<^sup>2 \<le> A * h * 2"
    using Y A h by (intro mult_left_mono) simp_all
  ultimately have "A * w * u * ((1 + u)\<^sup>2 + (1 + u) + 1) + A * h * (1 + u)\<^sup>2 + h
      \<le> A * w * (4 * u) + (A + 1) * (2 * h)"
    using h by (simp add: algebra_simps)
  with s e show ?thesis by linarith
qed

lemma pow2_numerals:
  "pow2 (- 51) = 4 * pow2 (- 53)" "pow2 (- 1074) = 2 * pow2 (- 1075)" "pow2 (- 53) \<le> 1 / 4"
  "pow2 (- 1022) \<le> 1"
proof -
  have p2: "pow2 2 = 4" and p1: "pow2 1 = 2" and p0: "pow2 0 = 1" and m2: "pow2 (- 2) = 1 / 4"
    by (simp_all add: pow2_def)
  show "pow2 (- 51) = 4 * pow2 (- 53)" using pow2_add [of 2 "- 53"] by (simp add: p2)
  show "pow2 (- 1074) = 2 * pow2 (- 1075)" using pow2_add [of 1 "- 1075"] by (simp add: p1)
  show "pow2 (- 53) \<le> 1 / 4" using pow2_mono [of "- 53" "- 2"] by (simp add: m2)
  show "pow2 (- 1022) \<le> 1" using pow2_mono [of "- 1022" 0] by (simp add: p0)
qed

lemma scaled_coordinate_error:
  assumes "0 \<le> p" and "0 < m"
  shows "\<bar>fl (fl (real_of_int p) * fl (1 / m)) - real_of_int p / m\<bar>
         \<le> real_of_int p / m * pow2 (- 51) + (real_of_int p + 1) * pow2 (- 1074)"
proof (cases "p = 0")
  case True
  then show ?thesis by simp
next
  case False
  with assms have A1: "1 \<le> real_of_int p" by simp
  define A where "A = real_of_int p"
  define w where "w = 1 / m"
  have w0: "0 \<le> w" using assms(2) by (simp add: w_def)
  have A0: "0 \<le> A" using A1 by (simp add: A_def)
  have "pow2 (- 1022) \<le> \<bar>A\<bar>" using A1 pow2_numerals(4) by (simp add: A_def)
  from fl_error_normal [OF this] have h1: "\<bar>fl A - A\<bar> \<le> A * pow2 (- 53)" using A0 by simp
  have h2: "\<bar>fl w - w\<bar> \<le> w * pow2 (- 53) + pow2 (- 1075)" using fl_error [of w] w0 by simp
  have a0: "0 \<le> fl A" using A0 by (rule fl_nonneg)
  have k0: "0 \<le> fl w" using w0 by (rule fl_nonneg)
  have "0 \<le> fl A * fl w" using a0 k0 by simp
  then have h3: "\<bar>fl (fl A * fl w) - fl A * fl w\<bar> \<le> fl A * fl w * pow2 (- 53) + pow2 (- 1075)"
    using fl_error [of "fl A * fl w"] by simp
  have "\<bar>fl (fl A * fl w) - A * w\<bar> \<le> A * w * (4 * pow2 (- 53)) + (A + 1) * (2 * pow2 (- 1075))"
    by (rule scaled_error_arith [OF A0 w0 _ pow2_numerals(3) _ a0 k0 h1 h2 h3]) simp_all
  then show ?thesis
    by (simp only: pow2_numerals(1,2) A_def w_def times_divide_eq_right mult_1_right)
qed

section \<open>The selection in PDF points\<close>

lemma fl_millionth_pos: "0 < fl (1 / 1000000)"
  by (simp add: fl_millionth)

lemma orientation_kept:
  assumes "0 \<le> p" and "p \<le> p'" and "0 \<le> k"
  shows "0 \<le> fl (fl (real_of_int p) * k) \<and> fl (fl (real_of_int p) * k) \<le> fl (fl (real_of_int p') * k)"
proof -
  have a: "0 \<le> fl (real_of_int p)" using assms(1) by (intro fl_nonneg) simp
  have "fl (real_of_int p) \<le> fl (real_of_int p')"
    using assms(1,2) by (intro fl_mono_nonneg) simp_all
  then have m: "fl (real_of_int p) * k \<le> fl (real_of_int p') * k"
    using assms(3) by (rule mult_right_mono)
  have z: "0 \<le> fl (real_of_int p) * k" using a assms(3) by simp
  show ?thesis using fl_nonneg [OF z] fl_mono_nonneg [OF z m] by simp
qed

lemma sel_st_tiny_scale:
  "selection_pdf_rect st_tiny_scale = Some (Rect 10000000 20000000 110000000 220000000)"
proof -
  have g: "get_selection_rect_image_coords st_tiny_scale = Some (10, 20, 110, 220)"
    by (simp add: st_tiny_scale_def st_sel_def st0_def get_selection_rect_image_coords_def Let_def)
  have d: "doc st_tiny_scale \<noteq> None" "scale st_tiny_scale = 944473296573929 / 9444732965739290427392"
    by (simp_all add: st_tiny_scale_def st_sel_def st0_def)
  have k: "fl (1 / max (944473296573929 / 9444732965739290427392) (fl (1 / 1000000))) = 1000000"
    unfolding fl_millionth by (simp add: float_eval)
  have c: "fl 10 = 10" "fl 20 = 20" "fl 110 = 110" "fl 220 = 220"
      "fl 10000000 = 10000000" "fl 20000000 = 20000000" "fl 110000000 = 110000000"
      "fl 220000000 = 220000000"
    by (simp_all add: float_eval)
  show ?thesis
    unfolding selection_pdf_rect_def g using d(1)
    by (simp add: d(2) k c Let_def)
qed

lemma sel_st_zoomed:
  "selection_pdf_rect st_zoomed
   = Some (Rect (4078188583023709 / 562949953421312) (4078188583023709 / 281474976710656)
        (1275 / 16) (1275 / 8))"
proof -
  have g: "get_selection_rect_image_coords st_zoomed = Some (10, 20, 110, 220)"
    by (simp add: st_zoomed_def st_sel_def st0_def get_selection_rect_image_coords_def Let_def)
  have d: "doc st_zoomed \<noteq> None" "scale st_zoomed = 6216733603272215 / 4503599627370496"
    by (simp_all add: st_zoomed_def st_sel_def st0_def)
  have k: "fl (1 / max (6216733603272215 / 4503599627370496) (fl (1 / 1000000)))
      = 3262550866418967 / 4503599627370496"
    unfolding fl_millionth by (simp add: float_eval)
  have c: "fl 10 = 10" "fl 20 = 20" "fl 110 = 110" "fl 220 = 220"
    by (simp_all add: float_eval)
  have p: "fl (16312754332094835 / 2251799813685248) = 4078188583023709 / 562949953421312"
      "fl (16312754332094835 / 1125899906842624) = 4078188583023709 / 281474976710656"
      "fl (179440297653043185 / 2251799813685248) = 1275 / 16"
      "fl (179440297653043185 / 1125899906842624) = 1275 / 8"
    by (simp_all add: float_eval)
  show ?thesis
    unfolding selection_pdf_rect_def g using d(1)
    by (simp add: d(2) k c p Let_def)
qed

text \<open>
  Claim C1, as stated: for every finalized selection and every positive scale the
  rectangle of \<^verbatim>\<open>_selection_pdf_rect\<close> is the pixel rectangle with each coordinate divided
  by the scale. It is not: with the selection \<open>(10, 20, 110, 220)\<close> and the positive scale
  \<^verbatim>\<open>1e-7\<close> the coordinates are multiplied by \<open>10\<^sup>6\<close>, because the divisor is
  \<^verbatim>\<open>max(self.scale, 1e-6)\<close>, while the quotient \<^verbatim>\<open>10 / 1e-7\<close> is \<open>10\<^sup>8\<close>; and with the scale
  \<^verbatim>\<open>1.3803921568627453\<close> the left coordinate \<^verbatim>\<open>10 * (1.0 / scale)\<close> is the float
  \<^verbatim>\<open>7.244318181818182\<close>, while the float quotient \<^verbatim>\<open>10 / scale\<close> is \<^verbatim>\<open>7.244318181818181\<close>.
\<close>

theorem selection_pdf_rect_counterexample:
  "get_selection_rect_image_coords st_tiny_scale = Some (10, 20, 110, 220)
   \<and> scale st_tiny_scale = 944473296573929 / 9444732965739290427392
   \<and> selection_pdf_rect st_tiny_scale = Some (Rect 10000000 20000000 110000000 220000000)
   \<and> fl (10 / scale st_tiny_scale) = 100000000
   \<and> get_selection_rect_image_coords st_zoomed = Some (10, 20, 110, 220)
   \<and> scale st_zoomed = 6216733603272215 / 4503599627370496
   \<and> selection_pdf_rect st_zoomed
       = Some (Rect (4078188583023709 / 562949953421312) (4078188583023709 / 281474976710656)
            (1275 / 16) (1275 / 8))
   \<and> fl (10 / scale st_zoomed) = 8156377166047417 / 1125899906842624
   \<and> 10 / scale st_zoomed = 9007199254740992 / 1243346720654443"
proof -
  have g1: "get_selection_rect_image_coords st_tiny_scale = Some (10, 20, 110, 220)"
    by (simp add: st_tiny_scale_def st_sel_def st0_def get_selection_rect_image_coords_def Let_def)
  have s1: "scale st_tiny_scale = 944473296573929 / 9444732965739290427392"
    by (simp add: st_tiny_scale_def st_sel_def st0_def)
  have q1: "fl (10 / scale st_tiny_scale) = 100000000"
    unfolding s1 by (simp add: float_eval)
  have g2: "get_selection_rect_image_coords st_zoomed = Some (10, 20, 110, 220)"
    by (simp add: st_zoomed_def st_sel_def st0_def get_selection_rect_image_coords_def Let_def)
  have s2: "scale st_zoomed = 6216733603272215 / 4503599627370496"
    by (simp add: st_zoomed_def st_sel_def st0_def)
  have q2: "fl (10 / scale st_zoomed) = 8156377166047417 / 1125899906842624"
    unfolding s2 by (simp add: float_eval)
  have e2: "10 / scale st_zoomed = 9007199254740992 / (1243346720654443::real)"
    unfolding s2 by simp
  from g1 s1 sel_st_tiny_scale q1 g2 s2 sel_st_zoomed q2 e2 show ?thesis by blast
qed

text \<open>
  Claim C1, amended: for every finalized selection rectangle \<open>(px0, py0, px1, py1)\<close> in
  image pixels and every scale, with a document open, \<^verbatim>\<open>_selection_pdf_rect\<close> returns the
  rectangle whose coordinates are the float products \<^verbatim>\<open>p * (1.0 / m)\<close> of the pixel
  coordinates, where the divisor \<open>m\<close> is \<^verbatim>\<open>max(self.scale, 1e-6)\<close>: the scale itself when it
  is at least the float \<^verbatim>\<open>1e-6\<close>, and the float \<^verbatim>\<open>1e-6\<close> for every smaller scale. Each
  coordinate differs from the quotient \<open>p / m\<close> by at most \<open>2\<^sup>-\<^sup>5\<^sup>1 \<sqdot> p / m + (p + 1) \<sqdot> 2\<^sup>-\<^sup>1\<^sup>0\<^sup>7\<^sup>4\<close>, and
  \<open>0 \<le> left \<le> right\<close> and \<open>0 \<le> top \<le> bottom\<close>: the axes keep the top-left origin and the
  orientation of the raster image.
\<close>

theorem selection_pdf_rect_scaled:
  assumes "get_selection_rect_image_coords st = Some (px0, py0, px1, py1)"
    and "doc st \<noteq> None"
    and "m = max (scale st) (fl (1 / 1000000))"
    and "r = Rect (fl (fl (real_of_int px0) * fl (1 / m))) (fl (fl (real_of_int py0) * fl (1 / m)))
               (fl (fl (real_of_int px1) * fl (1 / m))) (fl (fl (real_of_int py1) * fl (1 / m)))"
  shows "selection_pdf_rect st = Some r
    \<and> (fl (1 / 1000000) \<le> scale st \<longrightarrow> m = scale st)
    \<and> (scale st \<le> fl (1 / 1000000) \<longrightarrow> m = 4722366482869645 / 4722366482869645213696)
    \<and> \<bar>x0 r - real_of_int px0 / m\<bar>
        \<le> real_of_int px0 / m * pow2 (- 51) + (real_of_int px0 + 1) * pow2 (- 1074)
    \<and> \<bar>y0 r - real_of_int py0 / m\<bar>
        \<le> real_of_int py0 / m * pow2 (- 51) + (real_of_int py0 + 1) * pow2 (- 1074)
    \<and> \<bar>x1 r - real_of_int px1 / m\<bar>
        \<le> real_of_int px1 / m * pow2 (- 51) + (real_of_int px1 + 1) * pow2 (- 1074)
    \<and> \<bar>y1 r - real_of_int py1 / m\<bar>
        \<le> real_of_int py1 / m * pow2 (- 51) + (real_of_int py1 + 1) * pow2 (- 1074)
    \<and> 0 \<le> x0 r \<and> x0 r \<le> x1 r \<and> 0 \<le> y0 r \<and> y0 r \<le> y1 r"
proof -
  from get_selection_rect_image_coords_ordered [OF assms(1)]
  have o: "0 \<le> px0" "px0 \<le> px1" "0 \<le> py0" "py0 \<le> py1" "0 \<le> px1" "0 \<le> py1" by simp_all
  have m0: "0 < m" using fl_millionth_pos unfolding assms(3) by (simp add: less_max_iff_disj)
  have k0: "0 \<le> fl (1 / m)" using m0 by (intro fl_nonneg) simp
  have s: "selection_pdf_rect st = Some r"
    unfolding selection_pdf_rect_def assms(1) assms(4) assms(3) using assms(2)
    by (simp add: Let_def)
  have m1: "fl (1 / 1000000) \<le> scale st \<longrightarrow> m = scale st"
    unfolding assms(3) by (simp add: max_def)
  have m2: "scale st \<le> fl (1 / 1000000) \<longrightarrow> m = 4722366482869645 / 4722366482869645213696"
    unfolding assms(3) fl_millionth by (simp add: max_def)
  have c: "x0 r = fl (fl (real_of_int px0) * fl (1 / m))" "y0 r = fl (fl (real_of_int py0) * fl (1 / m))"
      "x1 r = fl (fl (real_of_int px1) * fl (1 / m))" "y1 r = fl (fl (real_of_int py1) * fl (1 / m))"
    unfolding assms(4) by (simp_all add: Rect_def)
  note e = scaled_coordinate_error [OF _ m0]
  have e1: "\<bar>x0 r - real_of_int px0 / m\<bar>
        \<le> real_of_int px0 / m * pow2 (- 51) + (real_of_int px0 + 1) * pow2 (- 1074)"
    unfolding c by (rule e [OF o(1)])
  have e2: "\<bar>y0 r - real_of_int py0 / m\<bar>
        \<le> real_of_int py0 / m * pow2 (- 51) + (real_of_int py0 + 1) * pow2 (- 1074)"
    unfolding c by (rule e [OF o(3)])
  have e3: "\<bar>x1 r - real_of_int px1 / m\<bar>
        \<le> real_of_int px1 / m * pow2 (- 51) + (real_of_int px1 + 1) * pow2 (- 1074)"
    unfolding c by (rule e [OF o(5)])
  have e4: "\<bar>y1 r - real_of_int py1 / m\<bar>
        \<le> real_of_int py1 / m * pow2 (- 51) + (real_of_int py1 + 1) * pow2 (- 1074)"
    unfolding c by (rule e [OF o(6)])
  have ox: "0 \<le> x0 r \<and> x0 r \<le> x1 r" unfolding c by (rule orientation_kept [OF o(1) o(2) k0])
  have oy: "0 \<le> y0 r \<and> y0 r \<le> y1 r" unfolding c by (rule orientation_kept [OF o(3) o(4) k0])
  from s m1 m2 e1 e2 e3 e4 ox oy show ?thesis by blast
qed

theorem selection_pdf_rect_scaled_witness:
  "get_selection_rect_image_coords st_sel = Some (10, 20, 110, 220)
   \<and> doc st_sel \<noteq> None
   \<and> max (scale st_sel) (fl (1 / 1000000)) = 2
   \<and> selection_pdf_rect st_sel = Some (Rect 5 10 55 110)
   \<and> \<bar>x0 (Rect 5 10 55 110) - 10 / 2\<bar> \<le> 10 / 2 * pow2 (- 51) + (10 + 1) * pow2 (- 1074)
   \<and> x0 (Rect 5 10 55 110) \<le> x1 (Rect 5 10 55 110)"
proof -
  have g: "get_selection_rect_image_coords st_sel = Some (10, 20, 110, 220)"
    by (simp add: st_sel_def st0_def get_selection_rect_image_coords_def Let_def)
  have d: "doc st_sel \<noteq> None" by (simp add: st_sel_def st0_def)
  have m: "2 = max (scale st_sel) (fl (1 / 1000000))"
    by (simp add: st_sel_def st0_def fl_millionth)
  have k: "fl (1 / 2) = 1 / 2" by (simp add: float_eval)
  have c: "fl 10 = 10" "fl 20 = 20" "fl 110 = 110" "fl 220 = 220"
      "fl 5 = 5" "fl 55 = 55"
    by (simp_all add: float_eval)
  have r: "Rect 5 10 55 110
      = Rect (fl (fl (real_of_int 10) * fl (1 / 2))) (fl (fl (real_of_int 20) * fl (1 / 2)))
          (fl (fl (real_of_int 110) * fl (1 / 2))) (fl (fl (real_of_int 220) * fl (1 / 2)))"
    by (simp add: k c)
  from selection_pdf_rect_scaled [OF g d m r] g d m show ?thesis by simp
qed

end
